theory Spec2Isabelle
  imports Complex_Main "HOL-Library.Word"
begin

unbundle bit_operations_syntax

section \<open>Python values shared by the embedding\<close>

text \<open>
  Exceptions the modelled code can raise. A function that can raise returns a sum
  whose left injection carries the exception.
\<close>

datatype py_error = IndexError | AttributeError | AssertionError | TypeError | ZeroDivisionError | KeyError

type_synonym byte = "8 word"

text \<open>\<^verbatim>\<open>int.from_bytes(bs, byteorder='big')\<close>.\<close>

definition from_bytes_big :: "byte list \<Rightarrow> nat" where
  "from_bytes_big bs = foldl (\<lambda>acc b. acc * 256 + unat b) 0 bs"

text \<open>\<^verbatim>\<open>packet_data[k]\<close>: raises IndexError out of range.\<close>

definition byte_at :: "byte list \<Rightarrow> nat \<Rightarrow> py_error + byte" where
  "byte_at packet_data k =
     (if k < length packet_data then Inr (packet_data ! k) else Inl IndexError)"

text \<open>
  \<^verbatim>\<open>packet_data.find(sub, pos)\<close>: the lowest index \<open>k \<ge> pos\<close> at which
  \<open>sub\<close> occurs, \<open>None\<close> for Python's \<open>-1\<close>.
\<close>

fun find_list :: "byte list \<Rightarrow> byte list \<Rightarrow> nat \<Rightarrow> nat option" where
  "find_list sub [] k = (if sub = [] then Some k else None)"
| "find_list sub (x # xs) k =
     (if take (length sub) (x # xs) = sub then Some k else find_list sub xs (Suc k))"

definition find_bytes :: "byte list \<Rightarrow> byte list \<Rightarrow> nat \<Rightarrow> nat option" where
  "find_bytes packet_data sub pos =
     (if pos \<le> length packet_data then find_list sub (drop pos packet_data) pos else None)"

definition start_code_4 :: "byte list" where
  "start_code_4 = [0, 0, 0, 1]"

definition start_code_3 :: "byte list" where
  "start_code_3 = [0, 0, 1]"

text \<open>
  The choice both Annex-B loops make after their two \<open>find\<close> calls: stop when neither
  start code occurs, take the 4-byte code when it is found and the 3-byte code is not
  found or not earlier, otherwise the 3-byte code.
\<close>

datatype start_code = SC4 nat | SC3 nat

definition next_start_code :: "byte list \<Rightarrow> nat \<Rightarrow> start_code option" where
  "next_start_code packet_data pos =
     (let idx4 = find_bytes packet_data start_code_4 pos;
          idx3 = find_bytes packet_data start_code_3 pos
      in if idx4 = None \<and> idx3 = None then None
         else if idx4 \<noteq> None \<and> (idx3 = None \<or> the idx4 \<le> the idx3) then Some (SC4 (the idx4))
         else Some (SC3 (the idx3)))"

text \<open>
  How a scanning loop of the NAL classifier ends: it raises, it returns a NAL type from
  inside the loop, or it falls out of the loop with the list \<open>nal_types_found\<close>.
\<close>

datatype scan_result = Raised py_error | Returned nat | Collected "nat list"

lemma find_list_bounds:
  "find_list sub xs k = Some r \<Longrightarrow> k \<le> r \<and> r + length sub \<le> k + length xs"
proof (induction xs arbitrary: k)
  case Nil
  then show ?case by (simp split: if_splits)
next
  case (Cons x xs)
  show ?case
  proof (cases "take (length sub) (x # xs) = sub")
    case True
    then have "length (take (length sub) (x # xs)) = length sub"
      by (simp only:)
    then have "length sub \<le> length (x # xs)"
      by simp
    with True Cons.prems show ?thesis by simp
  next
    case False
    with Cons.prems have "find_list sub xs (Suc k) = Some r" by simp
    from Cons.IH [OF this] show ?thesis by simp
  qed
qed

lemma find_bytes_bounds:
  "find_bytes d sub pos = Some r \<Longrightarrow> pos \<le> r \<and> r + length sub \<le> length d"
  unfolding find_bytes_def
  by (auto split: if_splits dest!: find_list_bounds)

lemma next_start_code_SC4:
  assumes "next_start_code d pos = Some (SC4 k)"
  shows "pos \<le> k \<and> k + 4 \<le> length d"
proof -
  from assms have "find_bytes d start_code_4 pos = Some k"
    by (cases "find_bytes d start_code_4 pos")
       (auto simp: next_start_code_def Let_def split: if_splits)
  from find_bytes_bounds [OF this] show ?thesis
    by (simp add: start_code_4_def)
qed

lemma next_start_code_SC3:
  assumes "next_start_code d pos = Some (SC3 k)"
  shows "pos \<le> k \<and> k + 3 \<le> length d"
proof -
  from assms have "find_bytes d start_code_3 pos = Some k"
    by (cases "find_bytes d start_code_3 pos")
       (auto simp: next_start_code_def Let_def split: if_splits)
  from find_bytes_bounds [OF this] show ?thesis
    by (simp add: start_code_3_def)
qed

section \<open>NAL classifier (nal\_tools.py)\<close>

subsection \<open>H.265\<close>

text \<open>The length-prefixed loop of \<open>get_h265_nal_unit_type\<close> (lines 31 to 41).\<close>

function h265_length_prefixed_scan :: "byte list \<Rightarrow> nat \<Rightarrow> nat list \<Rightarrow> scan_result" where
  "h265_length_prefixed_scan packet_data i nal_types_found =
     (if i < length packet_data - 4 then
        (if from_bytes_big (take 4 (drop i packet_data)) < 2
            \<or> from_bytes_big (take 4 (drop i packet_data)) > length packet_data - i - 4
         then Collected nal_types_found
         else if i + 5 < length packet_data then
           (case byte_at packet_data (i + 4) of
              Inl e \<Rightarrow> Raised e
            | Inr b \<Rightarrow>
                (if unat (drop_bit 1 b AND 0x3F) \<in> {16, 17, 18, 19, 20}
                 then Returned (unat (drop_bit 1 b AND 0x3F))
                 else h265_length_prefixed_scan packet_data
                        (i + 4 + from_bytes_big (take 4 (drop i packet_data)))
                        (nal_types_found @ [unat (drop_bit 1 b AND 0x3F)])))
         else h265_length_prefixed_scan packet_data
                (i + 4 + from_bytes_big (take 4 (drop i packet_data))) nal_types_found)
      else Collected nal_types_found)"
  by pat_completeness auto
termination
  by (relation "measure (\<lambda>(d, i, found). length d - i)") auto

text \<open>The Annex-B loop of \<open>get_h265_nal_unit_type\<close> (lines 62 to 86).\<close>

function h265_annexb_scan :: "byte list \<Rightarrow> nat \<Rightarrow> nat list \<Rightarrow> scan_result" where
  "h265_annexb_scan packet_data pos nal_types_found =
     (if pos < length packet_data - 5 then
        (case next_start_code packet_data pos of
           None \<Rightarrow> Collected nal_types_found
         | Some (SC4 idx4) \<Rightarrow>
             (if idx4 + 6 \<le> length packet_data then
                (case byte_at packet_data (idx4 + 4) of
                   Inl e \<Rightarrow> Raised e
                 | Inr b \<Rightarrow>
                     (if unat (drop_bit 1 b AND 0x3F) \<in> {16, 17, 18, 19, 20}
                      then Returned (unat (drop_bit 1 b AND 0x3F))
                      else h265_annexb_scan packet_data (idx4 + 4)
                             (nal_types_found @ [unat (drop_bit 1 b AND 0x3F)])))
              else h265_annexb_scan packet_data (idx4 + 4) nal_types_found)
         | Some (SC3 idx3) \<Rightarrow>
             (if idx3 + 5 \<le> length packet_data then
                (case byte_at packet_data (idx3 + 3) of
                   Inl e \<Rightarrow> Raised e
                 | Inr b \<Rightarrow>
                     (if unat (drop_bit 1 b AND 0x3F) \<in> {16, 17, 18, 19, 20}
                      then Returned (unat (drop_bit 1 b AND 0x3F))
                      else h265_annexb_scan packet_data (idx3 + 3)
                             (nal_types_found @ [unat (drop_bit 1 b AND 0x3F)])))
              else h265_annexb_scan packet_data (idx3 + 3) nal_types_found))
      else Collected nal_types_found)"
  by pat_completeness auto
termination
proof (relation "measure (\<lambda>(d, pos, found). length d - pos)", goal_cases)
  case 1
  show ?case by simp
next
  case (2 d pos found sc idx4 b)
  then show ?case by (auto dest!: next_start_code_SC4)
next
  case (3 d pos found sc idx4)
  then show ?case by (auto dest!: next_start_code_SC4)
next
  case (4 d pos found sc idx3 b)
  then show ?case by (auto dest!: next_start_code_SC3)
next
  case (5 d pos found sc idx3)
  then show ?case by (auto dest!: next_start_code_SC3)
qed

text \<open>
  The choice among the collected types (lines 44 to 54, and again 89 to 101); it is
  reached with a non-empty list only.
\<close>

definition h265_pick :: "nat list \<Rightarrow> nat" where
  "h265_pick nal_types_found =
     (case find (\<lambda>nal_type. nal_type = 21) nal_types_found of
        Some nal_type \<Rightarrow> nal_type
      | None \<Rightarrow>
          (case find (\<lambda>nal_type. 0 \<le> nal_type \<and> nal_type \<le> 15) nal_types_found of
             Some nal_type \<Rightarrow> nal_type
           | None \<Rightarrow> hd nal_types_found))"

text \<open>The Annex-B part of \<open>get_h265_nal_unit_type\<close> (lines 56 to 103).\<close>

definition h265_annexb :: "byte list \<Rightarrow> py_error + nat option" where
  "h265_annexb packet_data =
     (case h265_annexb_scan packet_data 0 [] of
        Raised e \<Rightarrow> Inl e
      | Returned nal_type \<Rightarrow> Inr (Some nal_type)
      | Collected nal_types_found \<Rightarrow>
          (if nal_types_found \<noteq> [] then Inr (Some (h265_pick nal_types_found))
           else Inr None))"

definition get_h265_nal_unit_type :: "byte list \<Rightarrow> py_error + nat option" where
  "get_h265_nal_unit_type packet_data =
     (if packet_data = [] \<or> length packet_data < 6 then Inr None
      else if from_bytes_big (take 4 packet_data) > 4
              \<and> from_bytes_big (take 4 packet_data) \<le> length packet_data - 4
      then
        (case h265_length_prefixed_scan packet_data 0 [] of
           Raised e \<Rightarrow> Inl e
         | Returned nal_type \<Rightarrow> Inr (Some nal_type)
         | Collected nal_types_found \<Rightarrow>
             (if nal_types_found \<noteq> [] then Inr (Some (h265_pick nal_types_found))
              else h265_annexb packet_data))
      else h265_annexb packet_data)"

subsection \<open>H.264\<close>

text \<open>The length-prefixed loop of \<open>get_h264_nal_unit_type\<close> (lines 222 to 232).\<close>

function h264_length_prefixed_scan :: "byte list \<Rightarrow> nat \<Rightarrow> nat list \<Rightarrow> scan_result" where
  "h264_length_prefixed_scan packet_data i nal_types_found =
     (if i < length packet_data - 4 then
        (if from_bytes_big (take 4 (drop i packet_data)) < 1
            \<or> from_bytes_big (take 4 (drop i packet_data)) > length packet_data - i - 4
         then Collected nal_types_found
         else if i + 4 < length packet_data then
           (case byte_at packet_data (i + 4) of
              Inl e \<Rightarrow> Raised e
            | Inr b \<Rightarrow>
                (if unat (b AND 0x1F) = 5 then Returned 5
                 else h264_length_prefixed_scan packet_data
                        (i + 4 + from_bytes_big (take 4 (drop i packet_data)))
                        (nal_types_found @ [unat (b AND 0x1F)])))
         else h264_length_prefixed_scan packet_data
                (i + 4 + from_bytes_big (take 4 (drop i packet_data))) nal_types_found)
      else Collected nal_types_found)"
  by pat_completeness auto
termination
  by (relation "measure (\<lambda>(d, i, found). length d - i)") auto

text \<open>The Annex-B loop of \<open>get_h264_nal_unit_type\<close> (lines 247 to 271).\<close>

function h264_annexb_scan :: "byte list \<Rightarrow> nat \<Rightarrow> nat list \<Rightarrow> scan_result" where
  "h264_annexb_scan packet_data pos nal_types_found =
     (if pos < length packet_data - 4 then
        (case next_start_code packet_data pos of
           None \<Rightarrow> Collected nal_types_found
         | Some (SC4 idx4) \<Rightarrow>
             (if idx4 + 5 \<le> length packet_data then
                (case byte_at packet_data (idx4 + 4) of
                   Inl e \<Rightarrow> Raised e
                 | Inr b \<Rightarrow>
                     (if unat (b AND 0x1F) = 5 then Returned 5
                      else h264_annexb_scan packet_data (idx4 + 4)
                             (nal_types_found @ [unat (b AND 0x1F)])))
              else h264_annexb_scan packet_data (idx4 + 4) nal_types_found)
         | Some (SC3 idx3) \<Rightarrow>
             (if idx3 + 4 \<le> length packet_data then
                (case byte_at packet_data (idx3 + 3) of
                   Inl e \<Rightarrow> Raised e
                 | Inr b \<Rightarrow>
                     (if unat (b AND 0x1F) = 5 then Returned 5
                      else h264_annexb_scan packet_data (idx3 + 3)
                             (nal_types_found @ [unat (b AND 0x1F)])))
              else h264_annexb_scan packet_data (idx3 + 3) nal_types_found))
      else Collected nal_types_found)"
  by pat_completeness auto
termination
proof (relation "measure (\<lambda>(d, pos, found). length d - pos)", goal_cases)
  case 1
  show ?case by simp
next
  case (2 d pos found sc idx4 b)
  then show ?case by (auto dest!: next_start_code_SC4)
next
  case (3 d pos found sc idx4)
  then show ?case by (auto dest!: next_start_code_SC4)
next
  case (4 d pos found sc idx3 b)
  then show ?case by (auto dest!: next_start_code_SC3)
next
  case (5 d pos found sc idx3)
  then show ?case by (auto dest!: next_start_code_SC3)
qed

text \<open>The choice among the collected types (lines 235 to 239, and again 274 to 278).\<close>

definition h264_pick :: "nat list \<Rightarrow> nat" where
  "h264_pick nal_types_found =
     (case find (\<lambda>nal_type. 1 \<le> nal_type \<and> nal_type \<le> 4) nal_types_found of
        Some nal_type \<Rightarrow> nal_type
      | None \<Rightarrow> hd nal_types_found)"

definition h264_annexb :: "byte list \<Rightarrow> py_error + nat option" where
  "h264_annexb packet_data =
     (case h264_annexb_scan packet_data 0 [] of
        Raised e \<Rightarrow> Inl e
      | Returned nal_type \<Rightarrow> Inr (Some nal_type)
      | Collected nal_types_found \<Rightarrow>
          (if nal_types_found \<noteq> [] then Inr (Some (h264_pick nal_types_found))
           else Inr None))"

definition get_h264_nal_unit_type :: "byte list \<Rightarrow> py_error + nat option" where
  "get_h264_nal_unit_type packet_data =
     (if packet_data = [] \<or> length packet_data < 5 then Inr None
      else if from_bytes_big (take 4 packet_data) > 4
              \<and> from_bytes_big (take 4 packet_data) \<le> length packet_data - 4
      then
        (case h264_length_prefixed_scan packet_data 0 [] of
           Raised e \<Rightarrow> Inl e
         | Returned nal_type \<Rightarrow> Inr (Some nal_type)
         | Collected nal_types_found \<Rightarrow>
             (if nal_types_found \<noteq> [] then Inr (Some (h264_pick nal_types_found))
              else h264_annexb packet_data))
      else h264_annexb packet_data)"

text \<open>The classification helpers (lines 106 to 191).\<close>

definition is_safe_h264_keyframe_nal :: "nat option \<Rightarrow> bool" where
  "is_safe_h264_keyframe_nal nal_type =
     (case nal_type of None \<Rightarrow> True | Some t \<Rightarrow> t \<in> set [5, 6, 7, 8])"

definition is_safe_h265_keyframe_nal :: "nat option \<Rightarrow> bool" where
  "is_safe_h265_keyframe_nal nal_type =
     (case nal_type of None \<Rightarrow> True
      | Some t \<Rightarrow> t \<in> set [16, 17, 18, 19, 20, 21, 32, 33, 34])"

definition is_rasl_nal_type :: "nat option \<Rightarrow> bool" where
  "is_rasl_nal_type nal_type =
     (case nal_type of None \<Rightarrow> False | Some t \<Rightarrow> t \<in> set [8, 9])"

definition is_radl_nal_type :: "nat option \<Rightarrow> bool" where
  "is_radl_nal_type nal_type =
     (case nal_type of None \<Rightarrow> False | Some t \<Rightarrow> t \<in> set [6, 7])"

definition is_leading_picture_nal_type :: "nat option \<Rightarrow> bool" where
  "is_leading_picture_nal_type nal_type =
     (is_rasl_nal_type nal_type \<or> is_radl_nal_type nal_type)"

declare h265_length_prefixed_scan.simps [simp del]
declare h265_annexb_scan.simps [simp del]
declare h264_length_prefixed_scan.simps [simp del]
declare h264_annexb_scan.simps [simp del]

subsection \<open>The NAL types of a packet\<close>

text \<open>
  The sequence of NAL types a packet is parsed into: what the two loops of
  \<open>get_h265_nal_unit_type\<close> append to \<open>nal_types_found\<close> when no early return cuts
  them short. The length-prefixed walk first, from offset \<open>i\<close>.
\<close>

function h265_length_prefixed_types :: "byte list \<Rightarrow> nat \<Rightarrow> nat list" where
  "h265_length_prefixed_types packet_data i =
     (if i < length packet_data - 4 then
        (if from_bytes_big (take 4 (drop i packet_data)) < 2
            \<or> from_bytes_big (take 4 (drop i packet_data)) > length packet_data - i - 4
         then []
         else if i + 5 < length packet_data then
           unat (drop_bit 1 (packet_data ! (i + 4)) AND 0x3F)
             # h265_length_prefixed_types packet_data
                 (i + 4 + from_bytes_big (take 4 (drop i packet_data)))
         else h265_length_prefixed_types packet_data
                (i + 4 + from_bytes_big (take 4 (drop i packet_data))))
      else [])"
  by pat_completeness auto
termination
  by (relation "measure (\<lambda>(d, i). length d - i)") auto

text \<open>The Annex-B walk, from position \<open>pos\<close>.\<close>

function h265_annexb_types :: "byte list \<Rightarrow> nat \<Rightarrow> nat list" where
  "h265_annexb_types packet_data pos =
     (if pos < length packet_data - 5 then
        (case next_start_code packet_data pos of
           None \<Rightarrow> []
         | Some (SC4 idx4) \<Rightarrow>
             (if idx4 + 6 \<le> length packet_data then
                unat (drop_bit 1 (packet_data ! (idx4 + 4)) AND 0x3F)
                  # h265_annexb_types packet_data (idx4 + 4)
              else h265_annexb_types packet_data (idx4 + 4))
         | Some (SC3 idx3) \<Rightarrow>
             (if idx3 + 5 \<le> length packet_data then
                unat (drop_bit 1 (packet_data ! (idx3 + 3)) AND 0x3F)
                  # h265_annexb_types packet_data (idx3 + 3)
              else h265_annexb_types packet_data (idx3 + 3)))
      else [])"
  by pat_completeness auto
termination
proof (relation "measure (\<lambda>(d, pos). length d - pos)", goal_cases)
  case 1
  show ?case by simp
next
  case (2 d pos sc idx4)
  then show ?case by (auto dest!: next_start_code_SC4)
next
  case (3 d pos sc idx4)
  then show ?case by (auto dest!: next_start_code_SC4)
next
  case (4 d pos sc idx3)
  then show ?case by (auto dest!: next_start_code_SC3)
next
  case (5 d pos sc idx3)
  then show ?case by (auto dest!: next_start_code_SC3)
qed

declare h265_length_prefixed_types.simps [simp del]
declare h265_annexb_types.simps [simp del]

text \<open>The framing is chosen by the test of line 27.\<close>

definition h265_nal_types :: "byte list \<Rightarrow> nat list" where
  "h265_nal_types packet_data =
     (if length packet_data < 6 then []
      else if from_bytes_big (take 4 packet_data) > 4
              \<and> from_bytes_big (take 4 packet_data) \<le> length packet_data - 4
      then h265_length_prefixed_types packet_data 0
      else h265_annexb_types packet_data 0)"

text \<open>
  The priority rule as the specification words it: the first BLA/IDR (16..20) wins; else
  the first CRA (21); else the first picture NAL in 0..15; else the first NAL encountered.
\<close>

definition h265_priority :: "nat list \<Rightarrow> nat option" where
  "h265_priority ts =
     (case find (\<lambda>t. 16 \<le> t \<and> t \<le> 20) ts of
        Some t \<Rightarrow> Some t
      | None \<Rightarrow>
          (if 21 \<in> set ts then Some 21
           else (case find (\<lambda>t. t \<le> 15) ts of
                   Some t \<Rightarrow> Some t
                 | None \<Rightarrow> (case ts of [] \<Rightarrow> None | t # _ \<Rightarrow> Some t))))"


subsection \<open>Properties of the NAL classifier\<close>

lemma h265_lp_no_raise: "h265_length_prefixed_scan d i acc \<noteq> Raised e"
proof (induction d i acc rule: h265_length_prefixed_scan.induct)
  case (1 d i acc)
  show ?case
    apply (subst h265_length_prefixed_scan.simps)
    using 1 by (auto simp: byte_at_def split: sum.splits)
qed

lemma h265_annexb_no_raise: "h265_annexb_scan d i acc \<noteq> Raised e"
proof (induction d i acc rule: h265_annexb_scan.induct)
  case (1 d i acc)
  show ?case
    apply (subst h265_annexb_scan.simps)
    using 1 by (auto simp: byte_at_def split: sum.splits option.splits start_code.splits)
qed

lemma h264_lp_no_raise: "h264_length_prefixed_scan d i acc \<noteq> Raised e"
proof (induction d i acc rule: h264_length_prefixed_scan.induct)
  case (1 d i acc)
  show ?case
    apply (subst h264_length_prefixed_scan.simps)
    using 1 by (auto simp: byte_at_def split: sum.splits)
qed

lemma h264_annexb_no_raise: "h264_annexb_scan d i acc \<noteq> Raised e"
proof (induction d i acc rule: h264_annexb_scan.induct)
  case (1 d i acc)
  show ?case
    apply (subst h264_annexb_scan.simps)
    using 1 by (auto simp: byte_at_def split: sum.splits option.splits start_code.splits)
qed

lemma h265_annexb_returns: "\<exists>r. h265_annexb d = Inr r"
  unfolding h265_annexb_def
  by (cases "h265_annexb_scan d 0 []") (simp_all add: h265_annexb_no_raise)

lemma h264_annexb_returns: "\<exists>r. h264_annexb d = Inr r"
  unfolding h264_annexb_def
  by (cases "h264_annexb_scan d 0 []") (simp_all add: h264_annexb_no_raise)

lemma get_h265_returns: "\<exists>r. get_h265_nal_unit_type d = Inr r"
  unfolding get_h265_nal_unit_type_def
  by (cases "h265_length_prefixed_scan d 0 []")
     (simp_all add: h265_lp_no_raise h265_annexb_returns)

lemma get_h264_returns: "\<exists>r. get_h264_nal_unit_type d = Inr r"
  unfolding get_h264_nal_unit_type_def
  by (cases "h264_length_prefixed_scan d 0 []")
     (simp_all add: h264_lp_no_raise h264_annexb_returns)

lemma no_start_code:
  "find_bytes d start_code_4 0 = None \<Longrightarrow> find_bytes d start_code_3 0 = None
   \<Longrightarrow> next_start_code d 0 = None"
  by (simp add: next_start_code_def)

lemma h265_annexb_no_start_code:
  "next_start_code d 0 = None \<Longrightarrow> h265_annexb d = Inr None"
  unfolding h265_annexb_def
  by (subst h265_annexb_scan.simps) simp

lemma h264_annexb_no_start_code:
  "next_start_code d 0 = None \<Longrightarrow> h264_annexb d = Inr None"
  unfolding h264_annexb_def
  by (subst h264_annexb_scan.simps) simp

text \<open>
  Claim C9. For every byte string, \<open>get_h264_nal_unit_type\<close> and
  \<open>get_h265_nal_unit_type\<close> return (both are total functions, and the result is never
  a raised exception: each byte read is in range) an integer NAL type or \<open>None\<close>. An
  input shorter than 5 bytes (H.264) or 6 bytes (H.265) gives \<open>None\<close>, and so does an
  input that fails the length-prefix test and holds neither start code.
\<close>

theorem nal_unit_type_total:
  "(\<exists>r. get_h264_nal_unit_type d = Inr r)
   \<and> (\<exists>r. get_h265_nal_unit_type d = Inr r)
   \<and> (length d < 5 \<longrightarrow> get_h264_nal_unit_type d = Inr None)
   \<and> (length d < 6 \<longrightarrow> get_h265_nal_unit_type d = Inr None)
   \<and> (\<not> (from_bytes_big (take 4 d) > 4 \<and> from_bytes_big (take 4 d) \<le> length d - 4)
        \<and> find_bytes d start_code_4 0 = None \<and> find_bytes d start_code_3 0 = None
      \<longrightarrow> get_h264_nal_unit_type d = Inr None \<and> get_h265_nal_unit_type d = Inr None)"
proof (intro conjI impI)
  show "\<exists>r. get_h264_nal_unit_type d = Inr r" by (rule get_h264_returns)
  show "\<exists>r. get_h265_nal_unit_type d = Inr r" by (rule get_h265_returns)
  show "get_h264_nal_unit_type d = Inr None" if "length d < 5"
    using that by (simp add: get_h264_nal_unit_type_def)
  show "get_h265_nal_unit_type d = Inr None" if "length d < 6"
    using that by (simp add: get_h265_nal_unit_type_def)
next
  assume a: "\<not> (from_bytes_big (take 4 d) > 4 \<and> from_bytes_big (take 4 d) \<le> length d - 4)
        \<and> find_bytes d start_code_4 0 = None \<and> find_bytes d start_code_3 0 = None"
  then have n: "next_start_code d 0 = None" by (simp add: no_start_code)
  from a show "get_h264_nal_unit_type d = Inr None"
    unfolding get_h264_nal_unit_type_def
    by (auto simp: h264_annexb_no_start_code [OF n])
  from a show "get_h265_nal_unit_type d = Inr None"
    unfolding get_h265_nal_unit_type_def
    by (auto simp: h265_annexb_no_start_code [OF n])
qed

theorem nal_unit_type_total_witness:
  "get_h264_nal_unit_type [1, 2, 3] = Inr None
   \<and> get_h265_nal_unit_type [1, 2, 3, 4, 5] = Inr None
   \<and> get_h264_nal_unit_type [1, 2, 3, 4, 5, 6, 7] = Inr None
   \<and> get_h265_nal_unit_type [1, 2, 3, 4, 5, 6, 7] = Inr None"
proof -
  have s: "length [1, 2, 3 :: byte] < 5" "length [1, 2, 3, 4, 5 :: byte] < 6" by simp_all
  have h: "\<not> (from_bytes_big (take 4 [1, 2, 3, 4, 5, 6, 7 :: byte]) > 4
              \<and> from_bytes_big (take 4 [1, 2, 3, 4, 5, 6, 7 :: byte])
                  \<le> length [1, 2, 3, 4, 5, 6, 7 :: byte] - 4)
           \<and> find_bytes [1, 2, 3, 4, 5, 6, 7] start_code_4 0 = None
           \<and> find_bytes [1, 2, 3, 4, 5, 6, 7] start_code_3 0 = None"
    by (simp add: from_bytes_big_def find_bytes_def start_code_4_def start_code_3_def)
  show ?thesis
    using nal_unit_type_total [of "[1, 2, 3]"] nal_unit_type_total [of "[1, 2, 3, 4, 5]"]
      nal_unit_type_total [of "[1, 2, 3, 4, 5, 6, 7]"] s h
    by blast
qed

text \<open>
  What a scanning loop of \<open>get_h265_nal_unit_type\<close> does with the types \<open>ts\<close> still
  ahead of it, having collected \<open>acc\<close>.
\<close>

definition scan_outcome :: "nat list \<Rightarrow> nat list \<Rightarrow> scan_result" where
  "scan_outcome acc ts =
     (case find (\<lambda>t. 16 \<le> t \<and> t \<le> 20) ts of
        Some t \<Rightarrow> Returned t
      | None \<Rightarrow> Collected (acc @ ts))"

lemma irap_set: "(t \<in> {16, 17, 18, 19, 20::nat}) = (16 \<le> t \<and> t \<le> 20)"
  by auto

lemma scan_outcome_Nil: "scan_outcome acc [] = Collected acc"
  by (simp add: scan_outcome_def)

lemma scan_outcome_Cons:
  "scan_outcome acc (t # ts) =
     (if 16 \<le> t \<and> t \<le> 20 then Returned t else scan_outcome (acc @ [t]) ts)"
  by (simp add: scan_outcome_def split: option.splits)

lemma h265_lp_scan_types:
  "h265_length_prefixed_scan d i acc = scan_outcome acc (h265_length_prefixed_types d i)"
proof (induction d i acc rule: h265_length_prefixed_scan.induct)
  case (1 d i acc)
  show ?case
    apply (subst h265_length_prefixed_scan.simps)
    apply (subst h265_length_prefixed_types.simps)
    using 1
    by (simp add: byte_at_def scan_outcome_Nil scan_outcome_Cons irap_set del: insert_iff)
qed

lemma h265_annexb_scan_types:
  "h265_annexb_scan d i acc = scan_outcome acc (h265_annexb_types d i)"
proof (induction d i acc rule: h265_annexb_scan.induct)
  case (1 d i acc)
  show ?case
    apply (subst h265_annexb_scan.simps)
    apply (subst h265_annexb_types.simps)
    using 1
    by (auto simp add: byte_at_def scan_outcome_Nil scan_outcome_Cons irap_set
        simp del: insert_iff split: option.splits start_code.splits
        dest!: next_start_code_SC4 next_start_code_SC3)
qed


lemma h265_pick_priority:
  assumes "find (\<lambda>t. 16 \<le> t \<and> t \<le> 20) ts = None" and "ts \<noteq> []"
  shows "h265_priority ts = Some (h265_pick ts)"
proof (cases "find (\<lambda>t. t = 21) ts")
  case None
  then have "21 \<notin> set ts" by (auto simp: find_None_iff)
  with assms None show ?thesis
    by (cases ts) (auto simp: h265_priority_def h265_pick_def split: option.splits)
next
  case (Some t)
  then have "t = 21" "21 \<in> set ts"
    by (auto simp: find_Some_iff in_set_conv_nth)
  with assms Some show ?thesis
    by (simp add: h265_priority_def h265_pick_def)
qed

lemma h265_priority_Returned:
  "find (\<lambda>t. 16 \<le> t \<and> t \<le> 20) ts = Some t \<Longrightarrow> h265_priority ts = Some t"
  by (simp add: h265_priority_def)

lemma h265_outcome_priority:
  "(case scan_outcome [] ts of
      Raised e \<Rightarrow> Inl e
    | Returned nal_type \<Rightarrow> Inr (Some nal_type)
    | Collected nal_types_found \<Rightarrow>
        (if nal_types_found \<noteq> [] then Inr (Some (h265_pick nal_types_found)) else Inr None))
   = Inr (h265_priority ts)"
proof (cases "find (\<lambda>t. 16 \<le> t \<and> t \<le> 20) ts")
  case None
  then show ?thesis
    by (cases "ts = []")
       (simp_all add: scan_outcome_def h265_pick_priority, simp add: h265_priority_def)
next
  case (Some t)
  then show ?thesis
    by (simp add: scan_outcome_def h265_priority_Returned)
qed

lemma h265_length_prefixed_types_nonempty:
  assumes "6 \<le> length d" "from_bytes_big (take 4 d) > 4"
    "from_bytes_big (take 4 d) \<le> length d - 4"
  shows "h265_length_prefixed_types d 0 \<noteq> []"
  using assms by (subst h265_length_prefixed_types.simps) auto

text \<open>
  Claim C6. Whatever the framing, \<open>get_h265_nal_unit_type\<close> returns the choice of the
  priority rule among the NAL types \<open>t1..tn\<close> of the packet: the first type in 16..20
  if there is one, otherwise 21 if some type is a CRA, otherwise the first type in 0..15,
  otherwise the first type; \<open>None\<close> when the packet holds no NAL type.
\<close>

theorem h265_nal_unit_type_priority:
  "get_h265_nal_unit_type packet_data = Inr (h265_priority (h265_nal_types packet_data))"
proof (cases "length packet_data < 6")
  case True
  then show ?thesis
    by (simp add: get_h265_nal_unit_type_def h265_nal_types_def h265_priority_def)
next
  case long: False
  show ?thesis
  proof (cases "from_bytes_big (take 4 packet_data) > 4
              \<and> from_bytes_big (take 4 packet_data) \<le> length packet_data - 4")
    case True
    with long have ne: "h265_length_prefixed_types packet_data 0 \<noteq> []"
      by (simp add: h265_length_prefixed_types_nonempty)
    have "scan_outcome [] (h265_length_prefixed_types packet_data 0) \<noteq> Collected []"
      using ne by (simp add: scan_outcome_def split: option.splits)
    then have "get_h265_nal_unit_type packet_data =
      (case scan_outcome [] (h265_length_prefixed_types packet_data 0) of
        Raised e \<Rightarrow> Inl e
      | Returned nal_type \<Rightarrow> Inr (Some nal_type)
      | Collected nal_types_found \<Rightarrow>
        (if nal_types_found \<noteq> [] then Inr (Some (h265_pick nal_types_found)) else Inr None))"
      using long True
      by (auto simp: get_h265_nal_unit_type_def h265_lp_scan_types split: scan_result.splits)
    also have "\<dots> = Inr (h265_priority (h265_length_prefixed_types packet_data 0))"
      by (rule h265_outcome_priority)
    finally show ?thesis using long True by (simp add: h265_nal_types_def)
  next
    case False
    with long have "get_h265_nal_unit_type packet_data = h265_annexb packet_data"
      by (auto simp: get_h265_nal_unit_type_def)
    also have "\<dots> = Inr (h265_priority (h265_annexb_types packet_data 0))"
      unfolding h265_annexb_def h265_annexb_scan_types by (rule h265_outcome_priority)
    finally show ?thesis using long False by (auto simp: h265_nal_types_def)
  qed
qed


theorem h265_nal_unit_type_priority_witness:
  "get_h265_nal_unit_type [0, 0, 0, 1, 0x40, 1, 0, 0, 0, 1, 0x26, 1, 0, 0, 1, 0x2A, 0] = Inr (Some 19)
   \<and> get_h265_nal_unit_type [0, 0, 0, 5, 0x40, 1, 0, 0, 0, 0, 0, 0, 5, 0x2A, 1, 5, 5, 5] = Inr (Some 21)
   \<and> get_h265_nal_unit_type [0, 0, 0, 5, 0x40, 1, 0, 0, 0, 0, 0, 0, 5, 0x02, 1, 5, 5, 5] = Inr (Some 1)
   \<and> get_h265_nal_unit_type [0, 0, 1, 0x40, 1, 0, 0, 1, 0x42, 1] = Inr (Some 32)"
proof -
  have "h265_priority (h265_nal_types
          [0, 0, 0, 1, 0x40, 1, 0, 0, 0, 1, 0x26, 1, 0, 0, 1, 0x2A, 0]) = Some 19"
    by code_simp
  moreover have "h265_priority (h265_nal_types
          [0, 0, 0, 5, 0x40, 1, 0, 0, 0, 0, 0, 0, 5, 0x2A, 1, 5, 5, 5]) = Some 21"
    by code_simp
  moreover have "h265_priority (h265_nal_types
          [0, 0, 0, 5, 0x40, 1, 0, 0, 0, 0, 0, 0, 5, 0x02, 1, 5, 5, 5]) = Some 1"
    by code_simp
  moreover have "h265_priority (h265_nal_types
          [0, 0, 1, 0x40, 1, 0, 0, 1, 0x42, 1]) = Some 32"
    by code_simp
  ultimately show ?thesis
    by (simp only: h265_nal_unit_type_priority)
qed

section \<open>Data model (misc\_data.py, media\_container.py)\<close>

text \<open>
  A stream and a packet of the demuxing library, with the attributes the modelled code
  reads. Time stamps are integers in the stream's time base or absent; times in seconds
  are exact fractions.
\<close>

datatype stream_type = Video | Audio | Subtitle | Attachment

record Stream =
  index :: nat
  stream_type :: stream_type
  codec_name :: string
  time_base :: rat

record Packet =
  pts :: "int option"
  dts :: "int option"
  duration :: "int option"
  packet_time_base :: rat
  is_keyframe :: bool
  stream :: Stream
  data :: "byte list"

text \<open>
  The dataclass \<open>AudioTrack\<close> (lines 23 to 36), its fields in declaration order. Python
  binds whatever value a caller passes, so a field holds a dynamically typed value; the
  back reference to the owning container is \<open>PySelf\<close>. The field \<open>frame_times\<close> holds
  numbers throughout (the integer time stamps while demuxing, seconds afterwards).
\<close>

datatype pyval = PySelf | PyInt int | PyStr string | PyStream Stream | PyPackets "Packet list"

record AudioTrack =
  media_container_ref :: pyval
  av_stream :: pyval
  path :: pyval
  track_index :: pyval
  index_in_source :: pyval
  packets :: pyval
  frame_times :: "rat list"

text \<open>
  The attributes \<open>MediaContainer.__init__\<close> assigns that the modelled code reads. The
  container's \<open>path\<close>, \<open>duration\<close> and \<open>start_time\<close> carry the prefix \<open>mc_\<close> here, the
  names without prefix being fields of other records. An entry of \<open>gop_end_times_dts\<close> is
  \<open>last_seen_video_dts\<close>, a packet's DTS, which may be absent.
\<close>

record MediaContainer =
  mc_path :: string
  video_stream :: "Stream option"
  video_frame_times :: "rat list"
  video_keyframe_indices :: "nat list"
  gop_start_times_pts_s :: "rat list"
  gop_start_times_dts :: "int list"
  gop_end_times_dts :: "int option list"
  gop_start_nal_types :: "nat option list"
  audio_tracks :: "AudioTrack list"
  subtitle_tracks :: "Packet list list"
  mc_duration :: rat
  mc_start_time :: rat

text \<open>
  The dataclass \<open>CutSegment\<close> (misc\_data.py, lines 17 to 24), and its constructor called
  with three positional arguments (the other fields take their default, -1) and with six.
\<close>

record CutSegment =
  require_recode :: bool
  start_time :: rat
  end_time :: rat
  gop_start_dts :: int
  gop_end_dts :: "int option"
  gop_index :: int

definition CutSegment3 :: "bool \<Rightarrow> rat \<Rightarrow> rat \<Rightarrow> CutSegment" where
  "CutSegment3 rr s e =
     \<lparr>require_recode = rr, start_time = s, end_time = e,
      gop_start_dts = -1, gop_end_dts = Some (-1), gop_index = -1\<rparr>"

definition CutSegment6 :: "bool \<Rightarrow> rat \<Rightarrow> rat \<Rightarrow> int \<Rightarrow> int option \<Rightarrow> int \<Rightarrow> CutSegment" where
  "CutSegment6 rr s e i_dts o_dts gop_idx =
     \<lparr>require_recode = rr, start_time = s, end_time = e,
      gop_start_dts = i_dts, gop_end_dts = o_dts, gop_index = gop_idx\<rparr>"

section \<open>Segment planner (smart\_cut.py)\<close>

text \<open>\<open>make_adjusted_segment_times\<close> (lines 48 to 57).\<close>

definition EPSILON :: rat where
  "EPSILON = 1 / 1000000"

definition make_adjusted_segment_times ::
  "(rat \<times> rat) list \<Rightarrow> MediaContainer \<Rightarrow> (rat \<times> rat) list" where
  "make_adjusted_segment_times positive_segments media_container =
     map (\<lambda>(s, e).
            let s1 = (if s \<le> EPSILON then -10 else s);
                e1 = (if e \<ge> mc_duration media_container - EPSILON
                      then mc_duration media_container + 10 else e)
            in (s1 + mc_start_time media_container, e1 + mc_start_time media_container))
         positive_segments"

text \<open>
  The video-less path of \<open>make_cut_segments\<close>: the \<open>while\<close> loop of lines 72 to 74
  together with the \<open>append\<close> of line 75, for one interval clamped to \<open>(s, e)\<close>.
\<close>

function slice_segment :: "rat \<Rightarrow> rat \<Rightarrow> CutSegment list" where
  "slice_segment s e =
     (if s + 20 < e then CutSegment3 False s (s + 19) # slice_segment (s + 19) e
      else [CutSegment3 False s e])"
  by pat_completeness auto
termination
proof (relation "measure (\<lambda>(s, e). nat \<lceil>e - s\<rceil>)", goal_cases)
  case 1
  show ?case by simp
next
  case (2 s e)
  have "e - (s + 19) = (e - s) - 19"
    by simp
  then have "\<lceil>e - (s + 19)\<rceil> = \<lceil>e - s\<rceil> - 19"
    by (simp only: ceiling_diff_numeral)
  moreover from 2 have "0 < \<lceil>e - s\<rceil>"
    by (simp add: less_ceiling_iff)
  ultimately show ?case by simp
qed

text \<open>The loop of lines 80 and 81: skip the intervals that end at or before the GOP start.\<close>

function skip_finished :: "(rat \<times> rat) list \<Rightarrow> nat \<Rightarrow> rat \<Rightarrow> nat" where
  "skip_finished positive_segments p i =
     (if p < length positive_segments \<and> snd (positive_segments ! p) \<le> i
      then skip_finished positive_segments (p + 1) i else p)"
  by pat_completeness auto
termination
  by (relation "measure (\<lambda>(segs, p, i). length segs - p)") auto

text \<open>
  The loop of lines 93 to 95: one recode segment for every interval that ends before the
  GOP end \<open>o\<close>, written \<open>o'\<close> here. The result is the final \<open>p\<close> and the segments
  appended.
\<close>

function inner_intervals ::
  "(rat \<times> rat) list \<Rightarrow> nat \<Rightarrow> rat \<Rightarrow> int \<Rightarrow> int option \<Rightarrow> int \<Rightarrow> nat \<times> CutSegment list" where
  "inner_intervals positive_segments p o' i_dts o_dts gop_idx =
     (if p < length positive_segments \<and> snd (positive_segments ! p) < o'
      then (case inner_intervals positive_segments (p + 1) o' i_dts o_dts gop_idx of
              (p', cs) \<Rightarrow>
                (p', CutSegment6 True (fst (positive_segments ! p)) (snd (positive_segments ! p))
                       i_dts o_dts gop_idx # cs))
      else (p, []))"
  by pat_completeness auto
termination
  by (relation "measure (\<lambda>(segs, p, o', i_dts, o_dts, gop_idx). length segs - p)") auto

declare slice_segment.simps [simp del]
declare skip_finished.simps [simp del]
declare inner_intervals.simps [simp del]

text \<open>
  The body of the \<open>for\<close> loop over the GOPs (lines 80 to 96), from the value \<open>p0\<close> of
  \<open>p\<close> at its start, for the GOP \<open>(gop_idx, i, o, i_dts, o_dts)\<close>. The result is the value
  of \<open>p\<close> at its end and the segments it appended. Python's \<open>or\<close> does not read
  \<open>positive_segments[p]\<close> when \<open>p\<close> is the length of the list.
\<close>

definition gop_body ::
  "bool \<Rightarrow> (rat \<times> rat) list \<Rightarrow> nat \<Rightarrow> nat \<times> rat \<times> rat \<times> int \<times> int option
     \<Rightarrow> nat \<times> CutSegment list" where
  "gop_body keyframe_mode positive_segments p0 gop =
     (case gop of (gop_idx, i, o', i_dts, o_dts) \<Rightarrow>
        (let p = skip_finished positive_segments p0 i in
         if p = length positive_segments \<or> o' \<le> fst (positive_segments ! p) then (p, [])
         else if keyframe_mode
                 \<or> (i \<ge> fst (positive_segments ! p) \<and> o' \<le> snd (positive_segments ! p))
         then (p, [CutSegment6 False i o' i_dts o_dts (int gop_idx)])
         else
           (case (if i > fst (positive_segments ! p)
                  then (p + 1, [CutSegment6 True i (snd (positive_segments ! p))
                                  i_dts o_dts (int gop_idx)])
                  else (p, [])) of
              (p1, c1) \<Rightarrow>
                (case inner_intervals positive_segments p1 o' i_dts o_dts (int gop_idx) of
                   (p2, c2) \<Rightarrow>
                     (p2, c1 @ c2 @
                        (if p2 < length positive_segments \<and> fst (positive_segments ! p2) < o'
                         then [CutSegment6 True (fst (positive_segments ! p2)) o'
                                 i_dts o_dts (int gop_idx)]
                         else []))))))"

fun gop_loop ::
  "bool \<Rightarrow> (rat \<times> rat) list \<Rightarrow> nat \<Rightarrow> (nat \<times> rat \<times> rat \<times> int \<times> int option) list
     \<Rightarrow> CutSegment list" where
  "gop_loop keyframe_mode positive_segments p [] = []"
| "gop_loop keyframe_mode positive_segments p (gop # gops) =
     (case gop_body keyframe_mode positive_segments p gop of
        (p', cs) \<Rightarrow> cs @ gop_loop keyframe_mode positive_segments p' gops)"

definition source_cutpoints :: "MediaContainer \<Rightarrow> rat list" where
  "source_cutpoints media_container =
     gop_start_times_pts_s media_container
       @ [mc_start_time media_container + mc_duration media_container + 1 / 10000]"

text \<open>
  \<open>make_cut_segments\<close> (lines 59 to 98). Without a video stream, \<open>audio_tracks[0]\<close> and
  \<open>frame_times[0]\<close> raise IndexError on an empty list. With one, \<open>zip\<close> stops at the
  shortest of its four lists and \<open>enumerate\<close> numbers the GOPs from 0.
\<close>

definition make_cut_segments ::
  "MediaContainer \<Rightarrow> (rat \<times> rat) list \<Rightarrow> bool \<Rightarrow> py_error + CutSegment list" where
  "make_cut_segments media_container positive_segments keyframe_mode =
     (if video_stream media_container = None then
        (case audio_tracks media_container of
           [] \<Rightarrow> Inl IndexError
         | first_audio_track # _ \<Rightarrow>
             (if frame_times first_audio_track = [] then Inl IndexError
              else
                (let min_time = hd (frame_times first_audio_track);
                     max_time = last (frame_times first_audio_track) + 1 / 10000
                 in Inr (concat (map (\<lambda>p. slice_segment (max (fst p) min_time)
                                                          (min (snd p) max_time))
                                     positive_segments)))))
      else
        Inr (gop_loop keyframe_mode positive_segments 0
               (enumerate 0
                  (zip (butlast (source_cutpoints media_container))
                     (zip (tl (source_cutpoints media_container))
                        (zip (gop_start_times_dts media_container)
                             (gop_end_times_dts media_container)))))))"

text \<open>
  The planning at the head of \<open>smart_cut\<close> (lines 108 to 113): the adjusted intervals, the
  planner in keyframe mode when the export mode is KEYFRAMES, and in RECODE mode the
  assignment \<open>c.require_recode = True\<close> to every segment.
\<close>

datatype VideoExportMode = SMARTCUT | KEYFRAMES | RECODE

definition planned_cut_segments ::
  "MediaContainer \<Rightarrow> (rat \<times> rat) list \<Rightarrow> VideoExportMode \<Rightarrow> py_error + CutSegment list" where
  "planned_cut_segments media_container positive_segments mode =
     (let adjusted_segment_times = make_adjusted_segment_times positive_segments media_container
      in case make_cut_segments media_container adjusted_segment_times (mode = KEYFRAMES) of
           Inl e \<Rightarrow> Inl e
         | Inr cut_segments \<Rightarrow>
             Inr (if mode = RECODE
                  then map (\<lambda>c. c\<lparr>require_recode := True\<rparr>) cut_segments
                  else cut_segments))"

section \<open>Video cutter: the choice of a segment's path (video\_cutter.py)\<close>

text \<open>
  The reads \<open>self.media_container.gop_has_rasl\<close> and
  \<open>self.media_container.gop_leading_end_dts\<close> of the video cutter. No statement of
  \<open>MediaContainer.__init__\<close>, and none elsewhere in the class, assigns an attribute of
  either name, so on every container the class builds the read raises AttributeError.
\<close>

definition MediaContainer_gop_has_rasl :: "MediaContainer \<Rightarrow> py_error + bool list" where
  "MediaContainer_gop_has_rasl media_container = Inl AttributeError"

definition MediaContainer_gop_leading_end_dts :: "MediaContainer \<Rightarrow> py_error + int option list" where
  "MediaContainer_gop_leading_end_dts media_container = Inl AttributeError"

text \<open>The attributes of a \<open>VideoCutter\<close> that the modelled methods read and write.\<close>

record VideoCutter =
  vc_media_container :: MediaContainer
  out_stream :: Stream
  out_time_base :: rat
  last_dts :: int
  is_first_remuxed_segment :: bool
  last_remuxed_segment_gop_index :: "int option"

text \<open>
  \<open>VideoCutter._should_hybrid_recode_cra\<close> (lines 524 to 542). The test
  \<open>s.gop_index < 0\<close> comes first, and Python's \<open>or\<close> reads \<open>gop_has_rasl\<close> only when
  it fails.
\<close>

definition should_hybrid_recode_cra :: "VideoCutter \<Rightarrow> CutSegment \<Rightarrow> py_error + bool" where
  "should_hybrid_recode_cra self s =
     (if gop_index s < 0 then Inr False
      else
        (case MediaContainer_gop_has_rasl (vc_media_container self) of
           Inl e \<Rightarrow> Inl e
         | Inr gop_has_rasl \<Rightarrow>
             (if gop_index s \<ge> int (length gop_has_rasl) then Inr False
              else if \<not> gop_has_rasl ! nat (gop_index s) then Inr False
              else Inr ((is_first_remuxed_segment self \<and> gop_index s > 0)
                        \<or> (last_remuxed_segment_gop_index self \<noteq> None
                            \<and> gop_index s > the (last_remuxed_segment_gop_index self) + 1)))))"

text \<open>The branch \<open>VideoCutter.segment\<close> takes for a segment (lines 424 to 438).\<close>

datatype segment_branch = RecodeSegment | HybridRecodeCraSegment | RemuxSegment

definition VideoCutter_segment_branch :: "VideoCutter \<Rightarrow> CutSegment \<Rightarrow> py_error + segment_branch" where
  "VideoCutter_segment_branch self cut_segment =
     (if require_recode cut_segment then Inr RecodeSegment
      else
        (case should_hybrid_recode_cra self cut_segment of
           Inl e \<Rightarrow> Inl e
         | Inr True \<Rightarrow> Inr HybridRecodeCraSegment
         | Inr False \<Rightarrow> Inr RemuxSegment))"

section \<open>Example inputs\<close>

text \<open>
  The index of a source without video whose one audio track has packets at the times
  \<open>ts\<close> (in seconds), and the index of a source with five GOPs of two seconds each.
\<close>

definition video_stream_0 :: Stream where
  "video_stream_0 = \<lparr>index = 0, stream_type = Video, codec_name = ''hevc'', time_base = 1 / 1000\<rparr>"

definition audio_stream_0 :: Stream where
  "audio_stream_0 = \<lparr>index = 0, stream_type = Audio, codec_name = ''aac'', time_base = 1 / 48000\<rparr>"

definition audio_packet :: "int \<Rightarrow> Packet" where
  "audio_packet t = \<lparr>pts = Some t, dts = Some t, duration = Some 1024,
     packet_time_base = 1 / 48000, is_keyframe = True, stream = audio_stream_0, data = []\<rparr>"

definition audio_only_index :: "rat list \<Rightarrow> MediaContainer" where
  "audio_only_index ts =
     \<lparr>mc_path = ''a.m4a'', video_stream = None, video_frame_times = [],
      video_keyframe_indices = [], gop_start_times_pts_s = [], gop_start_times_dts = [],
      gop_end_times_dts = [], gop_start_nal_types = [],
      audio_tracks = [\<lparr>media_container_ref = PySelf, av_stream = PyStream audio_stream_0,
                        path = PyStr ''a.m4a'', track_index = PyInt 0, index_in_source = PyInt 0,
                        packets = PyPackets (map (\<lambda>t. audio_packet \<lfloor>t * 48000\<rfloor>) ts),
                        frame_times = ts\<rparr>],
      subtitle_tracks = [], mc_duration = last ts, mc_start_time = 0\<rparr>"

definition video_index :: MediaContainer where
  "video_index =
     \<lparr>mc_path = ''a.mp4'',
      video_stream = Some video_stream_0,
      video_frame_times = [0, 2, 4, 6, 8], video_keyframe_indices = [0, 1, 2, 3, 4],
      gop_start_times_pts_s = [0, 2, 4, 6, 8],
      gop_start_times_dts = [0, 2000, 4000, 6000, 8000],
      gop_end_times_dts = [Some 0, Some 2000, Some 4000, Some 6000, Some 8000],
      gop_start_nal_types = [Some 19, Some 19, Some 19, Some 19, Some 19],
      audio_tracks = [], subtitle_tracks = [], mc_duration = 10, mc_start_time = 0\<rparr>"

definition example_cutter :: VideoCutter where
  "example_cutter =
     \<lparr>vc_media_container = video_index,
      out_stream = video_stream_0,
      out_time_base = 1 / 1000, last_dts = -100000000,
      is_first_remuxed_segment = True, last_remuxed_segment_gop_index = None\<rparr>"

section \<open>Properties of the segment planner\<close>

subsection \<open>The video-less path\<close>

lemma slice_segment_props:
  "c \<in> set (slice_segment s e) \<Longrightarrow> \<not> require_recode c \<and> end_time c - start_time c \<le> 20"
proof (induction s e rule: slice_segment.induct)
  case (1 s e)
  from "1.prems" show ?case
    apply (subst (asm) slice_segment.simps)
    using "1.IH" by (auto simp: CutSegment3_def split: if_splits)
qed

lemma slice_0_20: "slice_segment 0 20 = [CutSegment3 False 0 20]"
  by (subst slice_segment.simps) simp

text \<open>
  Claim C7, as amended. Without a video stream every segment \<open>make_cut_segments\<close> returns
  is a copy segment (\<open>require_recode\<close> is false) and is at most 20 seconds long: the loop
  cuts slices of 19 seconds while more than 20 seconds remain, so the last slice of an
  interval can reach 20 seconds.
\<close>

theorem no_video_segments:
  assumes "video_stream media_container = None"
    and "make_cut_segments media_container positive_segments keyframe_mode = Inr cut_segments"
    and "c \<in> set cut_segments"
  shows "\<not> require_recode c \<and> end_time c - start_time c \<le> 20"
  using assms
  by (auto simp: make_cut_segments_def Let_def split: list.splits if_splits
      dest: slice_segment_props)

theorem no_video_segments_witness:
  "video_stream (audio_only_index [0, 100]) = None
   \<and> make_cut_segments (audio_only_index [0, 100]) [(0, 20)] False = Inr [CutSegment3 False 0 20]
   \<and> CutSegment3 False 0 20 \<in> set [CutSegment3 False 0 20]
   \<and> \<not> require_recode (CutSegment3 False 0 20)
   \<and> end_time (CutSegment3 False 0 20) - start_time (CutSegment3 False 0 20) \<le> 20"
proof -
  have a: "video_stream (audio_only_index [0, 100]) = None"
    by (simp add: audio_only_index_def)
  have b: "make_cut_segments (audio_only_index [0, 100]) [(0, 20)] False
             = Inr [CutSegment3 False 0 20]"
    by (simp add: make_cut_segments_def audio_only_index_def slice_0_20)
  have c: "CutSegment3 False 0 20 \<in> set [CutSegment3 False 0 20]" by simp
  from no_video_segments [OF a b c] a b c show ?thesis by simp
qed

text \<open>
  The bound of 19 seconds fails: an interval of exactly 20 seconds is returned as one
  segment.
\<close>

theorem no_video_segments_counterexample:
  "make_cut_segments (audio_only_index [0, 100]) [(0, 20)] False = Inr [CutSegment3 False 0 20]
   \<and> \<not> end_time (CutSegment3 False 0 20) - start_time (CutSegment3 False 0 20) \<le> 19"
  by (simp add: make_cut_segments_def audio_only_index_def slice_0_20 CutSegment3_def)

text \<open>
  Claim C4 fails on the video-less path. For a one-second audio-only source and the keep
  interval \<open>(5, 6)\<close>, which lies behind the last audio packet, the planner returns one
  segment that starts at 5 and ends at 1.0001: the clamping \<open>max\<close> and \<open>min\<close> of lines
  70 and 71 cross. \<open>smart_cut\<close> asserts \<open>start_time < end_time\<close> for every segment it
  processes (line 186).
\<close>

theorem segment_start_after_end:
  "planned_cut_segments (audio_only_index [0, 1]) [(5, 6)] SMARTCUT
     = Inr [CutSegment3 False 5 (10001 / 10000)]
   \<and> make_cut_segments (audio_only_index [0, 1]) [(5, 6)] False
     = Inr [CutSegment3 False 5 (10001 / 10000)]
   \<and> \<not> start_time (CutSegment3 False 5 (10001 / 10000))
         < end_time (CutSegment3 False 5 (10001 / 10000))"
  by code_simp

subsection \<open>The video path\<close>

lemma skip_finished_props:
  "p0 \<le> length segs \<Longrightarrow>
   p0 \<le> skip_finished segs p0 i \<and> skip_finished segs p0 i \<le> length segs
   \<and> (skip_finished segs p0 i < length segs \<longrightarrow> i < snd (segs ! skip_finished segs p0 i))"
proof (induction segs p0 i rule: skip_finished.induct)
  case (1 segs p i)
  show ?case
  proof (cases "p < length segs \<and> snd (segs ! p) \<le> i")
    case True
    then have eq: "skip_finished segs p i = skip_finished segs (p + 1) i"
      by (subst skip_finished.simps) simp
    from True have "p + 1 \<le> length segs" by simp
    from "1.IH" [OF True this] show ?thesis
      unfolding eq by auto
  next
    case False
    then have eq: "skip_finished segs p i = p"
      by (subst skip_finished.simps) auto
    from False "1.prems" show ?thesis
      unfolding eq by auto
  qed
qed

lemma skip_finished_stay:
  "p < length segs \<Longrightarrow> i < snd (segs ! p) \<Longrightarrow> skip_finished segs p i = p"
  by (subst skip_finished.simps) simp

lemma inner_intervals_props:
  assumes "inner_intervals segs p o' i_dts o_dts g = (p2, cs)" and "p \<le> length segs"
    and "\<forall>(s, e) \<in> set segs. s < e"
  shows "p2 \<le> length segs \<and> (\<forall>c \<in> set cs. start_time c < end_time c)"
  using assms
proof (induction segs p o' i_dts o_dts g arbitrary: p2 cs rule: inner_intervals.induct)
  case (1 segs p o' i_dts o_dts g)
  show ?case
  proof (cases "p < length segs \<and> snd (segs ! p) < o'")
    case True
    obtain q ds where r: "inner_intervals segs (p + 1) o' i_dts o_dts g = (q, ds)"
      by (cases "inner_intervals segs (p + 1) o' i_dts o_dts g")
    have "inner_intervals segs p o' i_dts o_dts g =
            (q, CutSegment6 True (fst (segs ! p)) (snd (segs ! p)) i_dts o_dts g # ds)"
      using True r by (subst inner_intervals.simps) simp
    with "1.prems"(1) have pc: "p2 = q"
      "cs = CutSegment6 True (fst (segs ! p)) (snd (segs ! p)) i_dts o_dts g # ds"
      by simp_all
    from True have "p + 1 \<le> length segs" by simp
    from "1.IH" [OF True r this "1.prems"(3)]
    have ih: "q \<le> length segs" "\<forall>c \<in> set ds. start_time c < end_time c" by auto
    from True have "segs ! p \<in> set segs" by simp
    with "1.prems"(3) have "fst (segs ! p) < snd (segs ! p)"
      by (auto simp: case_prod_beta)
    with ih pc show ?thesis by (simp add: CutSegment6_def)
  next
    case False
    then have "inner_intervals segs p o' i_dts o_dts g = (p, [])"
      by (subst inner_intervals.simps) auto
    with "1.prems"(1) have "p2 = p" "cs = []"
      by simp_all
    with "1.prems"(2) show ?thesis by simp
  qed
qed

lemma gop_body_start_lt_end:
  assumes le: "p0 \<le> length segs" and pos: "\<forall>(s, e) \<in> set segs. s < e" and io: "i < o'"
    and body: "gop_body km segs p0 (g, i, o', i_dts, o_dts) = (p', cs)"
  shows "p' \<le> length segs \<and> (\<forall>c \<in> set cs. start_time c < end_time c)"
proof -
  define p where "p = skip_finished segs p0 i"
  from skip_finished_props [OF le, of i]
  have p: "p \<le> length segs" "p < length segs \<longrightarrow> i < snd (segs ! p)"
    by (auto simp: p_def)
  show ?thesis
  proof (cases "p = length segs \<or> o' \<le> fst (segs ! p)")
    case True
    with body p show ?thesis
      by (auto simp: gop_body_def Let_def p_def [symmetric])
  next
    case no_gap: False
    with p have pl: "p < length segs" by auto
    show ?thesis
    proof (cases "km \<or> (i \<ge> fst (segs ! p) \<and> o' \<le> snd (segs ! p))")
      case True
      with no_gap body io p show ?thesis
        by (auto simp: gop_body_def Let_def p_def [symmetric] CutSegment6_def)
    next
      case partial: False
      define p1 where "p1 = (if i > fst (segs ! p) then p + 1 else p)"
      define c1 where "c1 = (if i > fst (segs ! p)
         then [CutSegment6 True i (snd (segs ! p)) i_dts o_dts (int g)] else [])"
      obtain p2 c2 where r: "inner_intervals segs p1 o' i_dts o_dts (int g) = (p2, c2)"
        by (cases "inner_intervals segs p1 o' i_dts o_dts (int g)")
      from pl have "p1 \<le> length segs" by (simp add: p1_def)
      from inner_intervals_props [OF r this pos]
      have in2: "p2 \<le> length segs" "\<forall>c \<in> set c2. start_time c < end_time c" by auto
      from p pl have c1: "\<forall>c \<in> set c1. start_time c < end_time c"
        by (simp add: c1_def CutSegment6_def)
      from no_gap partial body r
      have "p' = p2" "cs = c1 @ c2 @
          (if p2 < length segs \<and> fst (segs ! p2) < o'
           then [CutSegment6 True (fst (segs ! p2)) o' i_dts o_dts (int g)] else [])"
        by (auto simp: gop_body_def Let_def p_def [symmetric] p1_def c1_def split: if_splits)
      with in2 c1 show ?thesis
        by (auto simp: CutSegment6_def)
    qed
  qed
qed

lemma gop_loop_start_lt_end:
  assumes "p \<le> length segs" and "\<forall>(s, e) \<in> set segs. s < e"
    and "\<forall>(g, i, o', i_dts, o_dts) \<in> set gops. i < o'"
    and "c \<in> set (gop_loop km segs p gops)"
  shows "start_time c < end_time c"
  using assms
proof (induction gops arbitrary: p)
  case Nil
  then show ?case by simp
next
  case (Cons gop gops)
  obtain g i o' i_dts o_dts where gop: "gop = (g, i, o', i_dts, o_dts)"
    by (cases gop) auto
  obtain p' cs where b: "gop_body km segs p (g, i, o', i_dts, o_dts) = (p', cs)"
    by (cases "gop_body km segs p (g, i, o', i_dts, o_dts)")
  from Cons.prems(3) gop have io: "i < o'" by simp
  from gop_body_start_lt_end [OF Cons.prems(1,2) io b]
  have p': "p' \<le> length segs" and cs: "\<forall>c \<in> set cs. start_time c < end_time c" by auto
  from Cons.prems(4) gop b have "c \<in> set cs \<or> c \<in> set (gop_loop km segs p' gops)"
    by simp
  then show ?case
  proof
    assume "c \<in> set cs" with cs show ?thesis by simp
  next
    assume "c \<in> set (gop_loop km segs p' gops)"
    with Cons.IH [OF p' Cons.prems(2)] Cons.prems(3) show ?thesis by simp
  qed
qed

lemma consecutive_cutpoints:
  assumes "sorted_wrt (<) (xs :: rat list)" and "(a, b) \<in> set (zip (butlast xs) (tl xs))"
  shows "a < b"
proof -
  from assms(2) obtain n where n: "n < length (butlast xs)" "n < length (tl xs)"
    "butlast xs ! n = a" "tl xs ! n = b"
    by (auto simp: in_set_zip)
  then have "a = xs ! n" "b = xs ! Suc n" "Suc n < length xs"
    by (auto simp: nth_butlast nth_tl)
  with assms(1) show ?thesis
    by (simp add: sorted_wrt_nth_less)
qed

text \<open>
  With a video stream the invariant of claim C4 holds: when the cut points (the GOP start
  times followed by the end of the source) increase strictly and every interval has
  \<open>s < e\<close>, every segment returned has \<open>start_time < end_time\<close>.
\<close>

lemma video_segments_start_lt_end:
  assumes "video_stream media_container \<noteq> None"
    and "sorted_wrt (<) (source_cutpoints media_container)"
    and "\<forall>(s, e) \<in> set positive_segments. s < e"
    and "make_cut_segments media_container positive_segments keyframe_mode = Inr cut_segments"
    and "c \<in> set cut_segments"
  shows "start_time c < end_time c"
proof -
  let ?gops = "enumerate 0
                  (zip (butlast (source_cutpoints media_container))
                     (zip (tl (source_cutpoints media_container))
                        (zip (gop_start_times_dts media_container)
                             (gop_end_times_dts media_container))))"
  have g: "\<forall>(g, i, o', i_dts, o_dts) \<in> set ?gops. i < o'"
  proof (clarify)
    fix g i o' i_dts o_dts
    assume "(g, i, o', i_dts, o_dts) \<in> set ?gops"
    then have "(i, o', i_dts, o_dts) \<in> set (zip (butlast (source_cutpoints media_container))
                     (zip (tl (source_cutpoints media_container))
                        (zip (gop_start_times_dts media_container)
                             (gop_end_times_dts media_container))))"
      by (auto simp: enumerate_eq_zip dest: set_zip_rightD)
    then obtain n where "n < length (butlast (source_cutpoints media_container))"
      "butlast (source_cutpoints media_container) ! n = i"
      "n < length (tl (source_cutpoints media_container))"
      "tl (source_cutpoints media_container) ! n = o'"
      by (auto simp: in_set_zip)
    then have "(i, o') \<in> set (zip (butlast (source_cutpoints media_container))
                               (tl (source_cutpoints media_container)))"
      unfolding in_set_zip by auto
    with assms(2) show "i < o'" by (rule consecutive_cutpoints)
  qed
  from assms(1,4) have "cut_segments = gop_loop keyframe_mode positive_segments 0 ?gops"
    by (auto simp: make_cut_segments_def)
  with assms(5) gop_loop_start_lt_end [OF _ assms(3) g, of 0 c keyframe_mode]
  show ?thesis by simp
qed

theorem video_segments_start_lt_end_witness:
  "video_stream video_index \<noteq> None
   \<and> sorted_wrt (<) (source_cutpoints video_index)
   \<and> make_cut_segments video_index [(1, 3)] False
       = Inr [CutSegment6 True 1 2 0 (Some 0) 0, CutSegment6 True 2 3 2000 (Some 2000) 1]
   \<and> start_time (CutSegment6 True 2 3 2000 (Some 2000) 1)
       < end_time (CutSegment6 True 2 3 2000 (Some 2000) 1)"
proof -
  have a: "video_stream video_index \<noteq> None"
    by (simp add: video_index_def)
  have b: "sorted_wrt (<) (source_cutpoints video_index)"
    by (simp add: source_cutpoints_def video_index_def)
  have c: "\<forall>(s, e) \<in> set [(1, 3 :: rat)]. (s :: rat) < e" by simp
  have d: "make_cut_segments video_index [(1, 3)] False
       = Inr [CutSegment6 True 1 2 0 (Some 0) 0, CutSegment6 True 2 3 2000 (Some 2000) 1]"
    by code_simp
  have e: "CutSegment6 True 2 3 2000 (Some 2000) 1
       \<in> set [CutSegment6 True 1 2 0 (Some 0) 0, CutSegment6 True 2 3 2000 (Some 2000) 1]"
    by simp
  from video_segments_start_lt_end [OF a b c d e] a b d show ?thesis by simp
qed

lemma inner_intervals_takeWhile:
  "p \<le> length segs \<Longrightarrow>
   inner_intervals segs p o' i_dts o_dts g =
     (p + length (takeWhile (\<lambda>(s, e). e < o') (drop p segs)),
      map (\<lambda>(s, e). CutSegment6 True s e i_dts o_dts g)
          (takeWhile (\<lambda>(s, e). e < o') (drop p segs)))"
proof (induction segs p o' i_dts o_dts g rule: inner_intervals.induct)
  case (1 segs p o' i_dts o_dts g)
  show ?case
  proof (cases "p < length segs \<and> snd (segs ! p) < o'")
    case True
    then have d: "drop p segs = segs ! p # drop (p + 1) segs"
      by (simp add: Cons_nth_drop_Suc)
    from True have "p + 1 \<le> length segs" by simp
    from "1.IH" [OF True this] True show ?thesis
      by (subst inner_intervals.simps) (simp add: d case_prod_unfold)
  next
    case False
    show ?thesis
    proof (cases "p < length segs")
      case True
      then have d: "drop p segs = segs ! p # drop (p + 1) segs"
        by (simp add: Cons_nth_drop_Suc)
      from True False show ?thesis
        by (subst inner_intervals.simps) (simp add: d case_prod_unfold)
    next
      case False
      then show ?thesis
        by (subst inner_intervals.simps) simp
    qed
  qed
qed

lemma clamp_takeWhile:
  assumes "sorted_wrt (\<lambda>a b. snd a \<le> fst b) xs" and "\<forall>(s, e) \<in> set xs. s < e"
  shows "map (\<lambda>(s, e). R s (min e (o' :: rat))) (takeWhile (\<lambda>(s, e). s < o') xs) =
         map (\<lambda>(s, e). R s e) (takeWhile (\<lambda>(s, e). e < o') xs)
           @ (case dropWhile (\<lambda>(s, e). e < o') xs of
                [] \<Rightarrow> []
              | (s, e) # _ \<Rightarrow> if s < o' then [R s o'] else [])"
  using assms
proof (induction xs)
  case Nil
  then show ?case by simp
next
  case (Cons x xs)
  obtain s e where x: "x = (s, e)" by (cases x)
  from Cons.prems x have se: "s < e" by simp
  from Cons.prems have later: "\<forall>y \<in> set xs. e \<le> fst y"
    by (simp add: x)
  show ?case
  proof (cases "e < o'")
    case True
    with se have "s < o'" by simp
    with True Cons show ?thesis by (simp add: x min_def)
  next
    case False
    have "takeWhile (\<lambda>(s, e). s < o') xs = []"
    proof (cases xs)
      case Nil
      then show ?thesis by simp
    next
      case (Cons y ys)
      with later have "e \<le> fst y" by simp
      with False Cons show ?thesis by (simp add: case_prod_unfold)
    qed
    with False show ?thesis by (simp add: x min_def)
  qed
qed

lemma sorted_wrt_drop': "sorted_wrt P xs \<Longrightarrow> sorted_wrt P (drop n xs)"
  by (metis append_take_drop_id sorted_wrt_append)

text \<open>
  Claim C2, as amended. Outside keyframe mode, for a GOP \<open>[i, o)\<close> and the current
  interval \<open>(s, e)\<close> of an ascending, disjoint list:
  \<^item> when the interval begins before the GOP start and ends inside the GOP
    (\<open>s < i < e < o\<close>), the planner first emits the recode segment
    \<open>(max s i, e)\<close>, moves \<open>p\<close> to the next interval and goes on with this GOP: every
    further interval that starts inside the GOP gives one recode segment, clamped to the
    GOP end, and \<open>p\<close> ends at the first interval that does not end inside the GOP;
  \<^item> when the interval begins inside the GOP and ends past its end
    (\<open>i < s < o < e\<close>), the planner emits exactly one recode segment, \<open>(s, o)\<close>, and
    leaves \<open>p\<close> at the same interval.
\<close>

theorem gop_body_partial_overlap:
  assumes "p < length segs" and "segs ! p = (s, e)"
    and "sorted_wrt (\<lambda>a b. snd a \<le> fst b) segs" and "\<forall>(s, e) \<in> set segs. s < e"
  shows "(s < i \<and> i < e \<and> e < o' \<longrightarrow>
            gop_body False segs p (g, i, o', i_dts, o_dts) =
              (p + 1 + length (takeWhile (\<lambda>(s', e'). e' < o') (drop (p + 1) segs)),
               CutSegment6 True (max s i) e i_dts o_dts (int g)
                 # map (\<lambda>(s', e'). CutSegment6 True s' (min e' o') i_dts o_dts (int g))
                       (takeWhile (\<lambda>(s', e'). s' < o') (drop (p + 1) segs))))
       \<and> (i < s \<and> s < o' \<and> o' < e \<longrightarrow>
            gop_body False segs p (g, i, o', i_dts, o_dts) =
              (p, [CutSegment6 True s o' i_dts o_dts (int g)]))"
proof (intro conjI impI)
  assume h: "s < i \<and> i < e \<and> e < o'"
  let ?rest = "drop (p + 1) segs"
  let ?n = "length (takeWhile (\<lambda>(s', e'). e' < o') ?rest)"
  from assms(1,2) h have skip: "skip_finished segs p i = p"
    by (simp add: skip_finished_stay)
  from assms(1) have p1: "p + 1 \<le> length segs" by simp
  note inner = inner_intervals_takeWhile [OF p1, of o' i_dts o_dts "int g"]
  have srt: "sorted_wrt (\<lambda>a b. snd a \<le> fst b) ?rest"
    using assms(3) by (rule sorted_wrt_drop')
  have pos: "\<forall>(s, e) \<in> set ?rest. s < e"
    using assms(4) by (auto dest: in_set_dropD)
  have dw: "dropWhile (\<lambda>(s', e'). e' < o') ?rest = drop (p + 1 + ?n) segs"
    by (simp add: dropWhile_eq_drop add.commute)
  have tail: "(case dropWhile (\<lambda>(s', e'). e' < o') ?rest of
                [] \<Rightarrow> []
              | (s', e') # _ \<Rightarrow> if s' < o' then [CutSegment6 True s' o' i_dts o_dts (int g)] else [])
          = (if p + 1 + ?n < length segs \<and> fst (segs ! (p + 1 + ?n)) < o'
             then [CutSegment6 True (fst (segs ! (p + 1 + ?n))) o' i_dts o_dts (int g)] else [])"
  proof (cases "p + 1 + ?n < length segs")
    case True
    then have "drop (p + 1 + ?n) segs = segs ! (p + 1 + ?n) # drop (Suc (p + 1 + ?n)) segs"
      by (simp add: Cons_nth_drop_Suc)
    with True show ?thesis
      unfolding dw by (simp add: case_prod_unfold)
  next
    case False
    then show ?thesis unfolding dw by simp
  qed
  from h have "max s i = i" by simp
  with h assms(1,2) skip inner show
    "gop_body False segs p (g, i, o', i_dts, o_dts) =
       (p + 1 + ?n,
        CutSegment6 True (max s i) e i_dts o_dts (int g)
          # map (\<lambda>(s', e'). CutSegment6 True s' (min e' o') i_dts o_dts (int g))
                (takeWhile (\<lambda>(s', e'). s' < o') ?rest))"
    unfolding clamp_takeWhile [OF srt pos, of "\<lambda>s e. CutSegment6 True s e i_dts o_dts (int g)" o'] tail
    by (simp add: gop_body_def Let_def)
next
  assume h: "i < s \<and> s < o' \<and> o' < e"
  from assms(1,2) h have skip: "skip_finished segs p i = p"
    by (simp add: skip_finished_stay)
  from assms(1,2) h have inner: "inner_intervals segs p o' i_dts o_dts (int g) = (p, [])"
    by (subst inner_intervals.simps) simp
  from h assms(1,2) skip inner show
    "gop_body False segs p (g, i, o', i_dts, o_dts) = (p, [CutSegment6 True s o' i_dts o_dts (int g)])"
    by (simp add: gop_body_def Let_def)
qed

theorem gop_body_partial_overlap_witness:
  "gop_body False [(1, 3), (7 / 2, 15 / 4), (19 / 5, 5)] 0 (1, 2, 4, 2000, Some 2000) =
     (2, [CutSegment6 True 2 3 2000 (Some 2000) 1,
          CutSegment6 True (7 / 2) (15 / 4) 2000 (Some 2000) 1,
          CutSegment6 True (19 / 5) 4 2000 (Some 2000) 1])
   \<and> gop_body False [(1, 3), (7 / 2, 15 / 4), (19 / 5, 5)] 2 (1, 2, 4, 2000, Some 2000) =
     (2, [CutSegment6 True (19 / 5) 4 2000 (Some 2000) 1])"
proof -
  let ?segs = "[(1, 3), (7 / 2, 15 / 4), (19 / 5, 5)] :: (rat \<times> rat) list"
  have srt: "sorted_wrt (\<lambda>a b. snd a \<le> fst b) ?segs" by simp
  have pos: "\<forall>(s, e) \<in> set ?segs. s < e" by simp
  have a: "(0::nat) < length ?segs" "?segs ! 0 = (1, 3)" by simp_all
  have b: "(2::nat) < length ?segs" "?segs ! 2 = (19 / 5, 5)" by simp_all
  from gop_body_partial_overlap [OF a srt pos, of 2 4 1 2000 "Some 2000"]
    gop_body_partial_overlap [OF b srt pos, of 2 4 1 2000 "Some 2000"]
  show ?thesis by simp
qed

text \<open>
  The claim as stated fails: for the GOP \<open>[0, 2)\<close> and the interval \<open>(1, 3)\<close>, which
  begins after the GOP start and ends past the GOP end, the segment emitted is
  \<open>(1, 2)\<close>, not \<open>(1, 3)\<close>, and \<open>p\<close> stays at the interval.
\<close>

theorem gop_body_partial_overlap_counterexample:
  "0 < fst ((1, 3) :: rat \<times> rat) \<and> 2 < snd ((1, 3) :: rat \<times> rat)
   \<and> gop_body False [(1, 3)] 0 (0, 0, 2, 0, Some 0) = (0, [CutSegment6 True 1 2 0 (Some 0) 0])
   \<and> gop_body False [(1, 3)] 0 (0, 0, 2, 0, Some 0)
       \<noteq> (1, [CutSegment6 True (max 1 0) 3 0 (Some 0) 0])
   \<and> make_cut_segments video_index [(1, 3)] False
       = Inr [CutSegment6 True 1 2 0 (Some 0) 0, CutSegment6 True 2 3 2000 (Some 2000) 1]"
  by code_simp

subsection \<open>Recode mode\<close>

text \<open>
  Claim C10. In RECODE mode every planned segment has \<open>require_recode\<close> set, whatever the
  planner marked, and \<open>VideoCutter.segment\<close> takes its recode branch for it.
\<close>

theorem recode_mode_all_recode:
  assumes "planned_cut_segments media_container positive_segments RECODE = Inr cut_segments"
    and "c \<in> set cut_segments"
  shows "require_recode c \<and> VideoCutter_segment_branch self c = Inr RecodeSegment"
  using assms
  by (auto simp: planned_cut_segments_def VideoCutter_segment_branch_def Let_def split: sum.splits)

theorem recode_mode_all_recode_witness:
  "planned_cut_segments video_index [(2, 6)] RECODE =
     Inr [CutSegment6 True 2 4 2000 (Some 2000) 1, CutSegment6 True 4 6 4000 (Some 4000) 2]
   \<and> planned_cut_segments video_index [(2, 6)] SMARTCUT =
     Inr [CutSegment6 False 2 4 2000 (Some 2000) 1, CutSegment6 False 4 6 4000 (Some 4000) 2]
   \<and> require_recode (CutSegment6 True 2 4 2000 (Some 2000) 1)
   \<and> VideoCutter_segment_branch example_cutter (CutSegment6 True 2 4 2000 (Some 2000) 1) = Inr RecodeSegment"
proof -
  have p: "planned_cut_segments video_index [(2, 6)] RECODE =
     Inr [CutSegment6 True 2 4 2000 (Some 2000) 1, CutSegment6 True 4 6 4000 (Some 4000) 2]"
    by code_simp
  have q: "planned_cut_segments video_index [(2, 6)] SMARTCUT =
     Inr [CutSegment6 False 2 4 2000 (Some 2000) 1, CutSegment6 False 4 6 4000 (Some 4000) 2]"
    by code_simp
  have m: "CutSegment6 True 2 4 2000 (Some 2000) 1
            \<in> set [CutSegment6 True 2 4 2000 (Some 2000) 1, CutSegment6 True 4 6 4000 (Some 4000) 2]"
    by simp
  from recode_mode_all_recode [OF p m, of example_cutter] p q show ?thesis by simp
qed

subsection \<open>The arrays of leading pictures\<close>

lemma hybrid_check_raises:
  "0 \<le> gop_index s \<Longrightarrow> should_hybrid_recode_cra self s = Inl AttributeError"
  by (simp add: should_hybrid_recode_cra_def MediaContainer_gop_has_rasl_def)

text \<open>
  Claim C3 fails on the code: the index never holds \<open>gop_has_rasl\<close> or
  \<open>gop_leading_end_dts\<close>. For a segment of any GOP (\<open>gop_index\<close> at least 0) the test
  the video cutter makes before a copy raises AttributeError.
\<close>

theorem copy_segment_raises_attribute_error:
  "make_cut_segments video_index [(2, 6)] False =
     Inr [CutSegment6 False 2 4 2000 (Some 2000) 1, CutSegment6 False 4 6 4000 (Some 4000) 2]
   \<and> should_hybrid_recode_cra example_cutter (CutSegment6 False 2 4 2000 (Some 2000) 1)
       = Inl AttributeError
   \<and> VideoCutter_segment_branch example_cutter (CutSegment6 False 2 4 2000 (Some 2000) 1)
       = Inl AttributeError"
proof -
  have "make_cut_segments video_index [(2, 6)] False =
     Inr [CutSegment6 False 2 4 2000 (Some 2000) 1, CutSegment6 False 4 6 4000 (Some 4000) 2]"
    by code_simp
  moreover have "should_hybrid_recode_cra example_cutter
      (CutSegment6 False 2 4 2000 (Some 2000) 1) = Inl AttributeError"
    by (rule hybrid_check_raises) (simp add: CutSegment6_def)
  ultimately show ?thesis
    by (simp add: VideoCutter_segment_branch_def CutSegment6_def)
qed

section \<open>Timestamp repair of the three cutters (video\_cutter.py, track\_cutters.py)\<close>

text \<open>Python's \<open>int(x)\<close> of a fraction: rounding towards zero.\<close>

definition py_int :: "rat \<Rightarrow> int" where
  "py_int x = (if 0 \<le> x then \<lfloor>x\<rfloor> else \<lceil>x\<rceil>)"

text \<open>
  \<open>VideoCutter._fix_packet_timestamps\<close> (lines 351 to 384). The method has two \<open>if\<close>
  statements on \<open>packet.dts\<close>; the first leaves a DTS in place, so they are the two
  branches here. The result is the cutter with its new \<open>last_dts\<close> and the packet as
  changed.
\<close>

definition fix_packet_timestamps :: "VideoCutter \<Rightarrow> Packet \<Rightarrow> VideoCutter \<times> Packet" where
  "fix_packet_timestamps self packet0 =
     (let packet1 = packet0\<lparr>stream := out_stream self, packet_time_base := out_time_base self\<rparr>;
          packet2 = (if dts packet1 \<noteq> None
                        \<and> (the (dts packet1) < -900000 \<or> the (dts packet1) > 1000000000000)
                     then packet1\<lparr>dts := None\<rparr> else packet1)
      in if dts packet2 \<noteq> None then
           (let packet3 = (if the (dts packet2) \<le> last_dts self
                           then packet2\<lparr>dts := Some (last_dts self + 1)\<rparr> else packet2);
                packet4 = (if pts packet3 \<noteq> None \<and> the (pts packet3) < the (dts packet3)
                           then packet3\<lparr>pts := dts packet3\<rparr> else packet3)
            in (self\<lparr>last_dts := the (dts packet4)\<rparr>, packet4))
         else
           (let pts_value = (case pts packet2 of Some v \<Rightarrow> v | None \<Rightarrow> 0);
                packet3 = (if last_dts self < 0 then packet2\<lparr>dts := Some pts_value\<rparr>
                           else packet2\<lparr>dts := Some (last_dts self + 1)\<rparr>)
            in (self\<lparr>last_dts := the (dts packet3)\<rparr>, packet3)))"

text \<open>The loop \<open>for packet in packets: self._fix_packet_timestamps(packet)\<close>.\<close>

fun fix_packets :: "VideoCutter \<Rightarrow> Packet list \<Rightarrow> VideoCutter \<times> Packet list" where
  "fix_packets self [] = (self, [])"
| "fix_packets self (packet # packet_list) =
     (case fix_packet_timestamps self packet of
        (self1, packet') \<Rightarrow>
          (case fix_packets self1 packet_list of
             (self2, fixed') \<Rightarrow> (self2, packet' # fixed')))"

text \<open>
  \<open>PassthruAudioCutter\<close>: the attributes its \<open>segment\<close> reads and writes, with the prefix
  \<open>a_\<close> (\<open>a_in_tb\<close> is the time base of the track's stream), and the loop of lines 64
  to 80 over the packets \<open>in_packets\<close> that the two searches of lines 55 to 62 select.
  The division by the time base raises ZeroDivisionError when it is zero.
\<close>

record PassthruAudioCutter =
  a_in_tb :: rat
  a_out_stream :: Stream
  a_segment_start_in_output :: rat
  a_prev_dts :: int
  a_prev_pts :: int

fun passthru_packets ::
  "PassthruAudioCutter \<Rightarrow> CutSegment \<Rightarrow> Packet list
     \<Rightarrow> py_error + PassthruAudioCutter \<times> Packet list" where
  "passthru_packets self cut_segment [] = Inr (self, [])"
| "passthru_packets self cut_segment (p # in_packets) =
     (if dts p = None \<or> pts p = None then passthru_packets self cut_segment in_packets
      else if a_in_tb self = 0 then Inl ZeroDivisionError
      else
        (let shift = (a_segment_start_in_output self - start_time cut_segment) / a_in_tb self;
             pts1 = py_int (of_int (the (pts p)) + shift);
             dts1 = py_int (of_int (the (dts p)) + shift);
             pts2 = (if pts1 \<le> a_prev_pts self then a_prev_pts self + 1 else pts1);
             dts2 = (if dts1 \<le> a_prev_dts self then a_prev_dts self + 1 else dts1);
             packet = p\<lparr>stream := a_out_stream self, pts := Some pts2, dts := Some dts2\<rparr>
         in case passthru_packets (self\<lparr>a_prev_pts := pts2, a_prev_dts := dts2\<rparr>)
                   cut_segment in_packets of
              Inl e \<Rightarrow> Inl e
            | Inr (self', packet_list) \<Rightarrow> Inr (self', packet # packet_list)))"

text \<open>
  The rest of \<open>PassthruAudioCutter.segment\<close> (lines 63 to 83), from the selected packets
  on.
\<close>

definition PassthruAudioCutter_segment ::
  "PassthruAudioCutter \<Rightarrow> CutSegment \<Rightarrow> Packet list
     \<Rightarrow> py_error + PassthruAudioCutter \<times> Packet list" where
  "PassthruAudioCutter_segment self cut_segment in_packets =
     (case passthru_packets self cut_segment in_packets of
        Inl e \<Rightarrow> Inl e
      | Inr (self', packet_list) \<Rightarrow>
          Inr (self'\<lparr>a_segment_start_in_output :=
                       a_segment_start_in_output self'
                         + (end_time cut_segment - start_time cut_segment)\<rparr>,
               packet_list))"

text \<open>
  \<open>SubtitleCutter\<close> (lines 106 to 161), its attributes with the prefix \<open>s_\<close>. The
  \<open>while\<close> loop of lines 136 to 144 gives the new cursor and the positions of the packets
  it selected; comparing an absent PTS raises TypeError.
\<close>

record SubtitleCutter =
  s_packets :: "Packet list"
  s_in_tb :: rat
  s_out_stream :: Stream
  s_segment_start_in_output :: rat
  s_prev_pts :: int
  s_current_packet_i :: nat

function subtitle_select ::
  "Packet list \<Rightarrow> int \<Rightarrow> int \<Rightarrow> nat \<Rightarrow> py_error + nat \<times> nat list" where
  "subtitle_select packet_list segment_start_pts segment_end_pts current_packet_i =
     (if current_packet_i < length packet_list then
        (case pts (packet_list ! current_packet_i) of
           None \<Rightarrow> Inl TypeError
         | Some p_pts \<Rightarrow>
             (if p_pts < segment_start_pts
              then subtitle_select packet_list segment_start_pts segment_end_pts (current_packet_i + 1)
              else if p_pts \<ge> segment_start_pts \<and> p_pts < segment_end_pts
              then (case subtitle_select packet_list segment_start_pts segment_end_pts
                           (current_packet_i + 1) of
                      Inl e \<Rightarrow> Inl e
                    | Inr (i', out_packets) \<Rightarrow> Inr (i', current_packet_i # out_packets))
              else Inr (current_packet_i, [])))
      else Inr (current_packet_i, []))"
  by pat_completeness auto
termination
  by (relation "measure (\<lambda>(ps, s, e, i). length ps - i)") auto

declare subtitle_select.simps [simp del]

text \<open>
  The \<open>for\<close> loop of lines 146 to 155. The packets emitted are the objects of the track's
  list, so the new time stamps are written there as well.
\<close>

fun subtitle_retime ::
  "SubtitleCutter \<Rightarrow> int \<Rightarrow> nat list \<Rightarrow> py_error + SubtitleCutter \<times> Packet list" where
  "subtitle_retime self segment_start_pts [] = Inr (self, [])"
| "subtitle_retime self segment_start_pts (k # out_packets) =
     (case pts (s_packets self ! k) of
        None \<Rightarrow> Inl TypeError
      | Some packet_pts \<Rightarrow>
          (let pts1 = py_int (of_int (packet_pts - segment_start_pts)
                               + s_segment_start_in_output self / s_in_tb self);
               pts2 = (if pts1 < s_prev_pts self then s_prev_pts self + 1 else pts1);
               packet = (s_packets self ! k)
                          \<lparr>stream := s_out_stream self, pts := Some pts2, dts := Some pts2\<rparr>
           in case subtitle_retime
                     (self\<lparr>s_packets := (s_packets self)[k := packet], s_prev_pts := pts2\<rparr>)
                     segment_start_pts out_packets of
                Inl e \<Rightarrow> Inl e
              | Inr (self', packet_list) \<Rightarrow> Inr (self', packet # packet_list)))"

definition SubtitleCutter_segment ::
  "SubtitleCutter \<Rightarrow> CutSegment \<Rightarrow> py_error + SubtitleCutter \<times> Packet list" where
  "SubtitleCutter_segment self cut_segment =
     (if s_in_tb self = 0 then Inl ZeroDivisionError
      else
        (let segment_start_pts = py_int (start_time cut_segment / s_in_tb self);
             segment_end_pts = py_int (end_time cut_segment / s_in_tb self)
         in case subtitle_select (s_packets self) segment_start_pts segment_end_pts
                   (s_current_packet_i self) of
              Inl e \<Rightarrow> Inl e
            | Inr (i', out_packets) \<Rightarrow>
                (case subtitle_retime (self\<lparr>s_current_packet_i := i'\<rparr>)
                        segment_start_pts out_packets of
                   Inl e \<Rightarrow> Inl e
                 | Inr (self', packet_list) \<Rightarrow>
                     Inr (self'\<lparr>s_segment_start_in_output :=
                                  s_segment_start_in_output self'
                                    + (end_time cut_segment - start_time cut_segment)\<rparr>,
                          packet_list))))"

text \<open>
  Example inputs: a subtitle track with two events that start at the same time, and video
  packets with given PTS and DTS.
\<close>

definition sub_stream :: Stream where
  "sub_stream = \<lparr>index = 2, stream_type = Subtitle, codec_name = ''ass'', time_base = 1 / 1000\<rparr>"

definition sub_packet :: "int \<Rightarrow> Packet" where
  "sub_packet t = \<lparr>pts = Some t, dts = Some t, duration = Some 2000, packet_time_base = 1 / 1000,
     is_keyframe = True, stream = sub_stream, data = []\<rparr>"

definition example_subtitle_cutter :: SubtitleCutter where
  "example_subtitle_cutter =
     \<lparr>s_packets = [sub_packet 1000, sub_packet 1000], s_in_tb = 1 / 1000, s_out_stream = sub_stream,
      s_segment_start_in_output = 0, s_prev_pts = -100000, s_current_packet_i = 0\<rparr>"

definition video_packet :: "int option \<Rightarrow> int option \<Rightarrow> Packet" where
  "video_packet p d = \<lparr>pts = p, dts = d, duration = Some 40, packet_time_base = 1 / 1000,
     is_keyframe = False, stream = out_stream example_cutter, data = []\<rparr>"

text \<open>The PTS and DTS of a list of packets.\<close>

definition stamps :: "Packet list \<Rightarrow> (int option \<times> int option) list" where
  "stamps packet_list = map (\<lambda>p. (pts p, dts p)) packet_list"

subsection \<open>Properties of the timestamp repair\<close>

text \<open>
  What the repairs do ensure. For video packets that arrive with a DTS inside
  \<open>[-900000, 10^12]\<close>, the emitted DTS increase strictly from \<open>last_dts\<close> on and no
  PTS is below its DTS.
\<close>

lemma fix_packet_in_range:
  assumes "dts packet = Some d" and "-900000 \<le> d" and "d \<le> 1000000000000"
    and "fix_packet_timestamps self packet = (self', packet')"
  shows "\<exists>d'. dts packet' = Some d' \<and> last_dts self < d' \<and> last_dts self' = d'
           \<and> (\<forall>p'. pts packet' = Some p' \<longrightarrow> d' \<le> p')
           \<and> (pts packet' = None) = (pts packet = None)"
  using assms
  by (auto simp: fix_packet_timestamps_def Let_def split: if_splits)

lemma fix_packets_in_range:
  assumes "\<forall>packet \<in> set packet_list. \<exists>d. dts packet = Some d \<and> -900000 \<le> d \<and> d \<le> 1000000000000"
    and "fix_packets self packet_list = (self', fixed)"
  shows "sorted_wrt (<) (last_dts self # map (\<lambda>p. the (dts p)) fixed)
         \<and> (\<forall>p \<in> set fixed. dts p \<noteq> None \<and> (pts p \<noteq> None \<longrightarrow> the (dts p) \<le> the (pts p)))
         \<and> last_dts self' = last (last_dts self # map (\<lambda>p. the (dts p)) fixed)"
  using assms
proof (induction packet_list arbitrary: self self' fixed)
  case Nil
  then show ?case by simp
next
  case (Cons packet packet_list)
  obtain self1 packet' where f: "fix_packet_timestamps self packet = (self1, packet')"
    by (cases "fix_packet_timestamps self packet")
  obtain self2 rest where r: "fix_packets self1 packet_list = (self2, rest)"
    by (cases "fix_packets self1 packet_list")
  from Cons.prems(2) f r have eq: "self' = self2" "fixed = packet' # rest" by simp_all
  from Cons.prems(1) obtain d where d: "dts packet = Some d" "-900000 \<le> d" "d \<le> 1000000000000"
    by auto
  from fix_packet_in_range [OF d f] obtain d' where d':
    "dts packet' = Some d'" "last_dts self < d'" "last_dts self1 = d'"
    "\<forall>p'. pts packet' = Some p' \<longrightarrow> d' \<le> p'" by blast
  from Cons.prems(1) have "\<forall>packet \<in> set packet_list.
      \<exists>d. dts packet = Some d \<and> -900000 \<le> d \<and> d \<le> 1000000000000" by simp
  from Cons.IH [OF this r]
  have ih: "sorted_wrt (<) (last_dts self1 # map (\<lambda>p. the (dts p)) rest)"
    "\<forall>p \<in> set rest. dts p \<noteq> None \<and> (pts p \<noteq> None \<longrightarrow> the (dts p) \<le> the (pts p))"
    "last_dts self2 = last (last_dts self1 # map (\<lambda>p. the (dts p)) rest)" by auto
  from ih(1) d' have "sorted_wrt (<) (last_dts self # map (\<lambda>p. the (dts p)) fixed)"
    by (auto simp: eq)
  moreover from ih(2) d' have "\<forall>p \<in> set fixed. dts p \<noteq> None
      \<and> (pts p \<noteq> None \<longrightarrow> the (dts p) \<le> the (pts p))"
    by (auto simp: eq)
  moreover from ih(3) d' have "last_dts self' = last (last_dts self # map (\<lambda>p. the (dts p)) fixed)"
    by (simp add: eq)
  ultimately show ?case by blast
qed

text \<open>
  For audio, the emitted DTS and the emitted PTS each increase strictly, and no PTS is
  below its DTS when that holds of the source packets and of the initial
  \<open>prev_pts\<close>, \<open>prev_dts\<close>.
\<close>

lemma py_int_mono: "x \<le> y \<Longrightarrow> py_int x \<le> py_int y"
proof -
  assume xy: "x \<le> y"
  consider "0 \<le> x" | "x < 0" "y < 0" | "x < 0" "0 \<le> y" by linarith
  then show ?thesis
  proof cases
    case 1
    with xy show ?thesis by (simp add: py_int_def floor_mono)
  next
    case 2
    with xy show ?thesis by (simp add: py_int_def ceiling_mono)
  next
    case 3
    then have "py_int x = \<lceil>x\<rceil>" "py_int y = \<lfloor>y\<rfloor>"
      by (simp_all add: py_int_def)
    moreover from 3 have "\<lceil>x\<rceil> \<le> 0" "0 \<le> \<lfloor>y\<rfloor>" by simp_all
    ultimately show ?thesis by linarith
  qed
qed

lemma passthru_packets_monotone:
  assumes "passthru_packets self cut_segment in_packets = Inr (self', out)"
  shows "sorted_wrt (<) (a_prev_dts self # map (\<lambda>p. the (dts p)) out)
         \<and> sorted_wrt (<) (a_prev_pts self # map (\<lambda>p. the (pts p)) out)
         \<and> a_prev_dts self' = last (a_prev_dts self # map (\<lambda>p. the (dts p)) out)
         \<and> a_prev_pts self' = last (a_prev_pts self # map (\<lambda>p. the (pts p)) out)"
  using assms
proof (induction in_packets arbitrary: self self' out)
  case Nil
  then show ?case by simp
next
  case (Cons p in_packets)
  show ?case
  proof (cases "dts p = None \<or> pts p = None")
    case True
    with Cons.prems have "passthru_packets self cut_segment in_packets = Inr (self', out)"
      by simp
    from Cons.IH [OF this] show ?thesis .
  next
    case False
    define shift where "shift = (a_segment_start_in_output self - start_time cut_segment) / a_in_tb self"
    define pts1 where "pts1 = py_int (of_int (the (pts p)) + shift)"
    define dts1 where "dts1 = py_int (of_int (the (dts p)) + shift)"
    define pts2 where "pts2 = (if pts1 \<le> a_prev_pts self then a_prev_pts self + 1 else pts1)"
    define dts2 where "dts2 = (if dts1 \<le> a_prev_dts self then a_prev_dts self + 1 else dts1)"
    define packet where
      "packet = p\<lparr>stream := a_out_stream self, pts := Some pts2, dts := Some dts2\<rparr>"
    from False Cons.prems obtain rest where
      r: "passthru_packets (self\<lparr>a_prev_pts := pts2, a_prev_dts := dts2\<rparr>) cut_segment in_packets
            = Inr (self', rest)"
      and out: "out = packet # rest"
      by (auto simp: Let_def shift_def pts1_def dts1_def pts2_def dts2_def packet_def
          split: if_splits sum.splits)
    from Cons.IH [OF r] have ih:
      "sorted_wrt (<) (dts2 # map (\<lambda>p. the (dts p)) rest)"
      "sorted_wrt (<) (pts2 # map (\<lambda>p. the (pts p)) rest)"
      "a_prev_dts self' = last (dts2 # map (\<lambda>p. the (dts p)) rest)"
      "a_prev_pts self' = last (pts2 # map (\<lambda>p. the (pts p)) rest)"
      by simp_all
    have "a_prev_dts self < dts2" "a_prev_pts self < pts2"
      by (simp_all add: dts2_def pts2_def)
    with ih show ?thesis
      by (auto simp: out packet_def)
  qed
qed

lemma passthru_packets_pts_ge_dts:
  assumes "passthru_packets self cut_segment in_packets = Inr (self', out)"
    and "a_prev_dts self \<le> a_prev_pts self"
    and "\<forall>p \<in> set in_packets. dts p \<noteq> None \<and> pts p \<noteq> None \<longrightarrow> the (dts p) \<le> the (pts p)"
  shows "\<forall>p \<in> set out. the (dts p) \<le> the (pts p)"
  using assms
proof (induction in_packets arbitrary: self self' out)
  case Nil
  then show ?case by simp
next
  case (Cons p in_packets)
  show ?case
  proof (cases "dts p = None \<or> pts p = None")
    case True
    with Cons.prems have "passthru_packets self cut_segment in_packets = Inr (self', out)"
      by simp
    from Cons.IH [OF this Cons.prems(2)] Cons.prems(3) show ?thesis by simp
  next
    case False
    define shift where "shift = (a_segment_start_in_output self - start_time cut_segment) / a_in_tb self"
    define pts1 where "pts1 = py_int (of_int (the (pts p)) + shift)"
    define dts1 where "dts1 = py_int (of_int (the (dts p)) + shift)"
    define pts2 where "pts2 = (if pts1 \<le> a_prev_pts self then a_prev_pts self + 1 else pts1)"
    define dts2 where "dts2 = (if dts1 \<le> a_prev_dts self then a_prev_dts self + 1 else dts1)"
    define packet where
      "packet = p\<lparr>stream := a_out_stream self, pts := Some pts2, dts := Some dts2\<rparr>"
    from False Cons.prems(1) obtain rest where
      r: "passthru_packets (self\<lparr>a_prev_pts := pts2, a_prev_dts := dts2\<rparr>) cut_segment in_packets
            = Inr (self', rest)"
      and out: "out = packet # rest"
      by (auto simp: Let_def shift_def pts1_def dts1_def pts2_def dts2_def packet_def
          split: if_splits sum.splits)
    from False Cons.prems(3) have "the (dts p) \<le> the (pts p)" by simp
    then have "dts1 \<le> pts1"
      unfolding dts1_def pts1_def by (intro py_int_mono) simp
    with Cons.prems(2) have le: "dts2 \<le> pts2"
      by (simp add: dts2_def pts2_def)
    then have "a_prev_dts (self\<lparr>a_prev_pts := pts2, a_prev_dts := dts2\<rparr>)
                 \<le> a_prev_pts (self\<lparr>a_prev_pts := pts2, a_prev_dts := dts2\<rparr>)" by simp
    from Cons.IH [OF r this] Cons.prems(3) have "\<forall>p \<in> set rest. the (dts p) \<le> the (pts p)"
      by simp
    with le show ?thesis by (simp add: out packet_def)
  qed
qed

text \<open>
  For subtitles, every emitted packet has its DTS equal to its PTS, and the emitted DTS
  never decrease.
\<close>

lemma subtitle_retime_props:
  assumes "subtitle_retime self segment_start_pts ks = Inr (self', out)"
  shows "(\<forall>p \<in> set out. pts p \<noteq> None \<and> dts p = pts p)
         \<and> sorted_wrt (\<le>) (s_prev_pts self # map (\<lambda>p. the (dts p)) out)
         \<and> s_prev_pts self' = last (s_prev_pts self # map (\<lambda>p. the (dts p)) out)"
  using assms
proof (induction ks arbitrary: self self' out)
  case Nil
  then show ?case by simp
next
  case (Cons k ks)
  from Cons.prems obtain packet_pts where pp: "pts (s_packets self ! k) = Some packet_pts"
    by (cases "pts (s_packets self ! k)") auto
  from Cons.prems pp obtain pts2 packet rest where
    r: "subtitle_retime (self\<lparr>s_packets := (s_packets self)[k := packet], s_prev_pts := pts2\<rparr>)
          segment_start_pts ks = Inr (self', rest)"
    and out: "out = packet # rest"
    and le: "s_prev_pts self \<le> pts2"
    and pk: "pts packet = Some pts2" "dts packet = Some pts2"
    by (auto simp: Let_def split: sum.splits if_splits)
  have upd: "s_prev_pts (self\<lparr>s_packets := (s_packets self)[k := packet], s_prev_pts := pts2\<rparr>)
               = pts2" by simp
  note IH = Cons.IH [OF r, unfolded upd]
  from IH have ih1: "\<forall>p \<in> set rest. pts p \<noteq> None \<and> dts p = pts p" by blast
  from IH have ih2: "sorted_wrt (\<le>) (pts2 # map (\<lambda>p. the (dts p)) rest)" by blast
  from IH have ih3: "s_prev_pts self' = last (pts2 # map (\<lambda>p. the (dts p)) rest)" by blast
  have "\<forall>p \<in> set out. pts p \<noteq> None \<and> dts p = pts p"
    using ih1 pk by (simp add: out)
  moreover have "sorted_wrt (\<le>) (s_prev_pts self # map (\<lambda>p. the (dts p)) out)"
    using ih2 le pk by (auto simp: out)
  moreover have "s_prev_pts self' = last (s_prev_pts self # map (\<lambda>p. the (dts p)) out)"
    using ih3 pk by (simp add: out)
  ultimately show ?case by blast
qed

text \<open>
  Claim C1 fails on the code in two places.
  \<^item> \<open>SubtitleCutter.segment\<close> corrects a PTS only when it is below \<open>prev_pts\<close>
    (\<open><\<close>, where the audio cutter has \<open><=\<close>): two subtitle events with the same
    start time are emitted with the same DTS, 1000 and 1000 here.
  \<^item> \<open>_fix_packet_timestamps\<close> gives a packet whose DTS is absent, or out of range and
    so treated as absent, the DTS \<open>last_dts + 1\<close> and leaves its PTS alone: after a
    packet with DTS 10, a packet with PTS 5 is emitted with DTS 11.
\<close>

theorem timestamp_repair_failures:
  "map_sum id (\<lambda>r. stamps (snd r))
     (SubtitleCutter_segment example_subtitle_cutter (CutSegment3 False 0 2))
     = Inr [(Some 1000, Some 1000), (Some 1000, Some 1000)]
   \<and> stamps (snd (fix_packets example_cutter
         [video_packet (Some 10) (Some 10), video_packet (Some 5) (Some 2000000000000)]))
     = [(Some 10, Some 10), (Some 5, Some 11)]
   \<and> stamps (snd (fix_packets example_cutter
         [video_packet (Some 10) (Some 10), video_packet (Some 5) None]))
     = [(Some 10, Some 10), (Some 5, Some 11)]"
  by code_simp

section \<open>Index construction (media\_container.py)\<close>

text \<open>
  The source file as the demuxing library presents it: the container's start time and
  duration in units of \<open>AV_TIME_BASE\<close> (either may be absent), its streams by kind, and
  the packets \<open>demux\<close> yields for the streams the index asks for, in demux order.
\<close>

definition AV_TIME_BASE :: int where
  "AV_TIME_BASE = 1000000"

record InputContainer =
  av_path :: string
  av_start_time :: "int option"
  av_duration :: "int option"
  streams_video :: "Stream list"
  streams_audio :: "Stream list"
  streams_subtitles :: "Stream list"
  demux :: "Packet list"

text \<open>
  The call \<open>AudioTrack(self, a_s, loading_s, path, i, i)\<close> of line 97. The
  \<open>__init__\<close> a dataclass generates binds positional arguments to the fields in
  declaration order, so six arguments fill \<open>media_container\<close>, \<open>av_stream\<close>, \<open>path\<close>,
  \<open>index\<close>, \<open>index_in_source\<close> and \<open>packets\<close>, and \<open>frame_times\<close> takes its default,
  the empty list.
\<close>

definition AudioTrack6 ::
  "pyval \<Rightarrow> pyval \<Rightarrow> pyval \<Rightarrow> pyval \<Rightarrow> pyval \<Rightarrow> pyval \<Rightarrow> AudioTrack" where
  "AudioTrack6 a1 a2 a3 a4 a5 a6 =
     \<lparr>media_container_ref = a1, av_stream = a2, path = a3, track_index = a4,
      index_in_source = a5, packets = a6, frame_times = []\<rparr>"

text \<open>
  \<open>track.packets.append(packet)\<close> (line 154): only a list has \<open>append\<close>. And
  \<open>t.av_stream.time_base\<close> (line 170).
\<close>

definition packets_append :: "AudioTrack \<Rightarrow> Packet \<Rightarrow> py_error + AudioTrack" where
  "packets_append track packet =
     (case packets track of
        PyPackets ps \<Rightarrow> Inr (track\<lparr>packets := PyPackets (ps @ [packet])\<rparr>)
      | _ \<Rightarrow> Inl AttributeError)"

definition av_stream_time_base :: "AudioTrack \<Rightarrow> py_error + rat" where
  "av_stream_time_base t =
     (case av_stream t of PyStream s \<Rightarrow> Inr (time_base s) | _ \<Rightarrow> Inl AttributeError)"

text \<open>
  The state of the demux loop: the container under construction and the loop's local
  variables.
\<close>

record index_state =
  self :: MediaContainer
  frame_pts :: "int list"
  first_keyframe :: bool
  last_seen_video_dts :: "int option"

text \<open>The NAL type of a keyframe packet (lines 124 to 128).\<close>

definition keyframe_nal_type :: "bool \<Rightarrow> bool \<Rightarrow> Packet \<Rightarrow> py_error + nat option" where
  "keyframe_nal_type is_h265 is_h264 packet =
     (if is_h265 then get_h265_nal_unit_type (data packet)
      else if is_h264 then get_h264_nal_unit_type (data packet)
      else Inr None)"

text \<open>The video branch of the loop body (lines 121 to 148).\<close>

definition video_packet_step ::
  "bool \<Rightarrow> bool \<Rightarrow> index_state \<Rightarrow> Packet \<Rightarrow> py_error + index_state" where
  "video_packet_step is_h265 is_h264 st packet =
     (case (if is_keyframe packet
            then (case keyframe_nal_type is_h265 is_h264 packet of
                    Inl e \<Rightarrow> Inl e
                  | Inr nal_type \<Rightarrow>
                      (let is_safe_keyframe =
                             (if first_keyframe st then True
                              else if is_h265 then is_safe_h265_keyframe_nal nal_type
                              else if is_h264 then is_safe_h264_keyframe_nal nal_type
                              else True);
                           st1 = st\<lparr>first_keyframe := False\<rparr>
                       in if is_safe_keyframe then
                            Inr (st1\<lparr>self := (self st1)
                                   \<lparr>video_keyframe_indices :=
                                      video_keyframe_indices (self st1) @ [length (frame_pts st1)],
                                    gop_start_times_dts :=
                                      gop_start_times_dts (self st1)
                                        @ [case dts packet of Some d \<Rightarrow> d | None \<Rightarrow> -100000000],
                                    gop_start_nal_types :=
                                      gop_start_nal_types (self st1) @ [nal_type],
                                    gop_end_times_dts :=
                                      (if last_seen_video_dts st1 \<noteq> None
                                       then gop_end_times_dts (self st1) @ [last_seen_video_dts st1]
                                       else gop_end_times_dts (self st1))\<rparr>\<rparr>)
                          else Inr st1))
            else Inr st) of
        Inl e \<Rightarrow> Inl e
      | Inr st2 \<Rightarrow>
          Inr (st2\<lparr>last_seen_video_dts := dts packet,
                   frame_pts := frame_pts st2 @ [the (pts packet)]\<rparr>))"

text \<open>
  The dictionaries \<open>stream_index_to_audio_track\<close> and \<open>stream_index_to_subtitle_track\<close>:
  from a stream's index to the position of its track. A later assignment to a key
  replaces an earlier one; a missing key raises KeyError.
\<close>

definition stream_index_to_position :: "Stream list \<Rightarrow> nat \<rightharpoonup> nat" where
  "stream_index_to_position ss = map_of (rev (zip (map index ss) [0..<length ss]))"

text \<open>The audio branch (lines 149 to 155) and the subtitle branch (lines 156 and 157).\<close>

definition audio_packet_step ::
  "Stream list \<Rightarrow> index_state \<Rightarrow> Packet \<Rightarrow> py_error + index_state" where
  "audio_packet_step audio_streams st packet =
     (case stream_index_to_position audio_streams (index (stream packet)) of
        None \<Rightarrow> Inl KeyError
      | Some i \<Rightarrow>
          (case packets_append (audio_tracks (self st) ! i) packet of
             Inl e \<Rightarrow> Inl e
           | Inr track \<Rightarrow>
               Inr (st\<lparr>self := (self st)
                      \<lparr>audio_tracks := (audio_tracks (self st))
                         [i := track\<lparr>frame_times :=
                                  frame_times track @ [of_int (the (pts packet))]\<rparr>]\<rparr>\<rparr>)))"

definition subtitle_packet_step ::
  "Stream list \<Rightarrow> index_state \<Rightarrow> Packet \<Rightarrow> py_error + index_state" where
  "subtitle_packet_step subtitle_streams st packet =
     (case stream_index_to_position subtitle_streams (index (stream packet)) of
        None \<Rightarrow> Inl KeyError
      | Some i \<Rightarrow>
          Inr (st\<lparr>self := (self st)
                 \<lparr>subtitle_tracks := (subtitle_tracks (self st))
                    [i := subtitle_tracks (self st) ! i @ [packet]]\<rparr>\<rparr>))"

text \<open>The loop body (lines 116 to 157) and the loop.\<close>

definition demux_step ::
  "InputContainer \<Rightarrow> bool \<Rightarrow> bool \<Rightarrow> bool \<Rightarrow> index_state \<Rightarrow> Packet
     \<Rightarrow> py_error + index_state" where
  "demux_step av_container manual_duration_calc is_h265 is_h264 st packet =
     (if pts packet = None then Inr st
      else
        (let st1 = (if manual_duration_calc \<and> duration packet \<noteq> None
                    then st\<lparr>self := (self st)
                           \<lparr>mc_duration :=
                              max (mc_duration (self st))
                                  (of_int (the (pts packet) + the (duration packet))
                                     * packet_time_base packet)\<rparr>\<rparr>
                    else st)
         in if stream_type (stream packet) = Video \<and> video_stream (self st1) \<noteq> None
            then video_packet_step is_h265 is_h264 st1 packet
            else if stream_type (stream packet) = Audio
            then audio_packet_step (streams_audio av_container) st1 packet
            else if stream_type (stream packet) = Subtitle
            then subtitle_packet_step (streams_subtitles av_container) st1 packet
            else Inr st1))"

fun demux_loop ::
  "InputContainer \<Rightarrow> bool \<Rightarrow> bool \<Rightarrow> bool \<Rightarrow> index_state \<Rightarrow> Packet list
     \<Rightarrow> py_error + index_state" where
  "demux_loop av_container manual_duration_calc is_h265 is_h264 st [] = Inr st"
| "demux_loop av_container manual_duration_calc is_h265 is_h264 st (packet # rest) =
     (case demux_step av_container manual_duration_calc is_h265 is_h264 st packet of
        Inl e \<Rightarrow> Inl e
      | Inr st1 \<Rightarrow> demux_loop av_container manual_duration_calc is_h265 is_h264 st1 rest)"

text \<open>The conversion of every track's \<open>frame_times\<close> to seconds (lines 168 to 170).\<close>

fun convert_frame_times :: "AudioTrack list \<Rightarrow> py_error + AudioTrack list" where
  "convert_frame_times [] = Inr []"
| "convert_frame_times (t # ts) =
     (case av_stream_time_base t of
        Inl e \<Rightarrow> Inl e
      | Inr tb \<Rightarrow>
          (case convert_frame_times ts of
             Inl e \<Rightarrow> Inl e
           | Inr ts' \<Rightarrow> Inr (t\<lparr>frame_times := map (\<lambda>x. x * tb) (frame_times t)\<rparr> # ts')))"

text \<open>
  \<open>MediaContainer.__init__\<close> (lines 57 to 170). The second pass
  \<open>_fill_hevc_picture_nal_types\<close> returns at once when no entry of
  \<open>gop_start_nal_types\<close> is the placeholder -1, and the first pass writes none, so it
  changes nothing.
\<close>

definition MediaContainer_init :: "InputContainer \<Rightarrow> py_error + MediaContainer" where
  "MediaContainer_init av_container =
     (let manual_duration_calc = (av_duration av_container = None);
          the_video_stream = (case streams_video av_container of [] \<Rightarrow> None | v # _ \<Rightarrow> Some v);
          is_h265 = (case the_video_stream of Some v \<Rightarrow> codec_name v = ''hevc'' | None \<Rightarrow> False);
          is_h264 = (case the_video_stream of Some v \<Rightarrow> codec_name v = ''h264'' | None \<Rightarrow> False);
          st0 = \<lparr>self =
                   \<lparr>mc_path = av_path av_container,
                    video_stream = the_video_stream,
                    video_frame_times = [],
                    video_keyframe_indices = [],
                    gop_start_times_pts_s = [],
                    gop_start_times_dts = [],
                    gop_end_times_dts = [],
                    gop_start_nal_types = [],
                    audio_tracks =
                      map (\<lambda>(i, a_s). AudioTrack6 PySelf (PyStream a_s) (PyStream a_s)
                                         (PyStr (av_path av_container)) (PyInt (int i)) (PyInt (int i)))
                          (enumerate 0 (streams_audio av_container)),
                    subtitle_tracks = map (\<lambda>s. []) (streams_subtitles av_container),
                    mc_duration = (case av_duration av_container of
                                     Some d \<Rightarrow> of_int d / of_int AV_TIME_BASE | None \<Rightarrow> 0),
                    mc_start_time = (case av_start_time av_container of
                                       Some t \<Rightarrow> of_int t / of_int AV_TIME_BASE | None \<Rightarrow> 0)\<rparr>,
                 frame_pts = [], first_keyframe = True, last_seen_video_dts = None\<rparr>
      in case demux_loop av_container manual_duration_calc is_h265 is_h264 st0
                (demux av_container) of
           Inl e \<Rightarrow> Inl e
         | Inr st \<Rightarrow>
             (let mc1 = (case video_stream (self st) of
                           None \<Rightarrow> self st
                         | Some v \<Rightarrow>
                             (let frame_times_s = map (\<lambda>p. of_int p * time_base v)
                                                      (sort (frame_pts st))
                              in (self st)
                                   \<lparr>gop_end_times_dts :=
                                      gop_end_times_dts (self st) @ [last_seen_video_dts st],
                                    video_frame_times := frame_times_s,
                                    gop_start_times_pts_s :=
                                      map (\<lambda>k. frame_times_s ! k)
                                          (video_keyframe_indices (self st))\<rparr>))
              in case convert_frame_times (audio_tracks mc1) of
                   Inl e \<Rightarrow> Inl e
                 | Inr tracks \<Rightarrow> Inr (mc1\<lparr>audio_tracks := tracks\<rparr>)))"

text \<open>
  Example inputs: a source with one audio stream and the packets \<open>ps\<close>, and a source
  with one H.265 stream of five keyframe packets, each an IDR picture in Annex-B framing.
\<close>

definition audio_source :: "Packet list \<Rightarrow> InputContainer" where
  "audio_source ps = \<lparr>av_path = ''a.m4a'', av_start_time = Some 0, av_duration = Some 1000000,
     streams_video = [], streams_audio = [audio_stream_0], streams_subtitles = [],
     demux = ps\<rparr>"

definition keyframe_packet :: "int \<Rightarrow> Packet" where
  "keyframe_packet t = \<lparr>pts = Some t, dts = Some t, duration = Some 2000,
     packet_time_base = 1 / 1000, is_keyframe = True, stream = video_stream_0,
     data = [0, 0, 0, 1, 0x26, 1]\<rparr>"

definition video_source :: InputContainer where
  "video_source = \<lparr>av_path = ''a.mp4'', av_start_time = Some 0, av_duration = Some 10000000,
     streams_video = [video_stream_0], streams_audio = [], streams_subtitles = [],
     demux = map keyframe_packet [0, 2000, 4000, 6000, 8000]\<rparr>"

subsection \<open>Properties of the index construction\<close>

text \<open>No track ever holds a list of packets: the state of the loop keeps this.\<close>

definition no_packet_list :: "index_state \<Rightarrow> bool" where
  "no_packet_list st = (\<forall>t \<in> set (audio_tracks (self st)). \<forall>ps. packets t \<noteq> PyPackets ps)"

lemma video_packet_step_tracks:
  "video_packet_step is_h265 is_h264 st packet = Inr st' \<Longrightarrow>
   audio_tracks (self st') = audio_tracks (self st)"
  by (auto simp: video_packet_step_def Let_def split: if_splits sum.splits)

lemma subtitle_packet_step_tracks:
  "subtitle_packet_step ss st packet = Inr st' \<Longrightarrow>
   audio_tracks (self st') = audio_tracks (self st)"
  by (auto simp: subtitle_packet_step_def split: option.splits)

lemma stream_index_to_position_bound:
  "stream_index_to_position ss k = Some i \<Longrightarrow> i < length ss"
  unfolding stream_index_to_position_def
  by (auto dest!: map_of_SomeD simp: in_set_zip)

lemma audio_packet_step_raises:
  assumes "no_packet_list st" and "length (audio_tracks (self st)) = length ss"
  shows "\<exists>e. audio_packet_step ss st packet = Inl e"
proof (cases "stream_index_to_position ss (index (stream packet))")
  case None
  then show ?thesis by (simp add: audio_packet_step_def)
next
  case (Some i)
  then have "i < length (audio_tracks (self st))"
    using assms(2) by (simp add: stream_index_to_position_bound)
  then have "audio_tracks (self st) ! i \<in> set (audio_tracks (self st))" by simp
  with assms(1) have "\<forall>ps. packets (audio_tracks (self st) ! i) \<noteq> PyPackets ps"
    by (simp add: no_packet_list_def)
  then have "packets_append (audio_tracks (self st) ! i) packet = Inl AttributeError"
    by (cases "packets (audio_tracks (self st) ! i)") (simp_all add: packets_append_def)
  with Some show ?thesis by (simp add: audio_packet_step_def)
qed

lemma demux_step_tracks:
  assumes "demux_step av m is_h265 is_h264 st packet = Inr st'"
    and "no_packet_list st" and "length (audio_tracks (self st)) = length (streams_audio av)"
  shows "audio_tracks (self st') = audio_tracks (self st)
         \<and> \<not> (pts packet \<noteq> None \<and> stream_type (stream packet) = Audio)"
proof (cases "pts packet = None")
  case True
  with assms(1) show ?thesis by (simp add: demux_step_def)
next
  case False
  define st1 where "st1 = (if m \<and> duration packet \<noteq> None
                    then st\<lparr>self := (self st)
                           \<lparr>mc_duration :=
                              max (mc_duration (self st))
                                  (of_int (the (pts packet) + the (duration packet))
                                     * packet_time_base packet)\<rparr>\<rparr>
                    else st)"
  have t1: "audio_tracks (self st1) = audio_tracks (self st)"
    by (simp add: st1_def)
  then have n1: "no_packet_list st1" "length (audio_tracks (self st1)) = length (streams_audio av)"
    using assms(2,3) by (simp_all add: no_packet_list_def)
  from audio_packet_step_raises [OF n1] obtain e where
    e: "audio_packet_step (streams_audio av) st1 packet = Inl e" by blast
  from False assms(1) have step:
    "(if stream_type (stream packet) = Video \<and> video_stream (self st1) \<noteq> None
            then video_packet_step is_h265 is_h264 st1 packet
            else if stream_type (stream packet) = Audio
            then audio_packet_step (streams_audio av) st1 packet
            else if stream_type (stream packet) = Subtitle
            then subtitle_packet_step (streams_subtitles av) st1 packet
            else Inr st1) = Inr st'"
    unfolding demux_step_def Let_def st1_def by (simp only: if_False)
  show ?thesis
  proof (cases "stream_type (stream packet)")
    case Video
    with step t1 False show ?thesis
      by (auto split: if_splits dest: video_packet_step_tracks)
  next
    case Audio
    with step e show ?thesis by simp
  next
    case Subtitle
    with step t1 False show ?thesis
      by (auto dest: subtitle_packet_step_tracks)
  next
    case Attachment
    with step t1 False show ?thesis by auto
  qed
qed

lemma demux_loop_no_audio:
  assumes "demux_loop av m is_h265 is_h264 st ps = Inr st'"
    and "no_packet_list st" and "length (audio_tracks (self st)) = length (streams_audio av)"
  shows "\<forall>packet \<in> set ps. \<not> (pts packet \<noteq> None \<and> stream_type (stream packet) = Audio)"
  using assms
proof (induction ps arbitrary: st)
  case Nil
  then show ?case by simp
next
  case (Cons packet ps)
  from Cons.prems(1) obtain st1 where
    s: "demux_step av m is_h265 is_h264 st packet = Inr st1"
    and l: "demux_loop av m is_h265 is_h264 st1 ps = Inr st'"
    by (auto split: sum.splits)
  from demux_step_tracks [OF s Cons.prems(2,3)]
  have t: "audio_tracks (self st1) = audio_tracks (self st)"
    and p: "\<not> (pts packet \<noteq> None \<and> stream_type (stream packet) = Audio)" by auto
  from t Cons.prems(2,3) have "no_packet_list st1"
    "length (audio_tracks (self st1)) = length (streams_audio av)"
    by (simp_all add: no_packet_list_def)
  from Cons.IH [OF l this] p show ?case by simp
qed

text \<open>
  Whenever the source yields an audio packet with a PTS, the construction of the index
  raises.
\<close>

lemma MediaContainer_init_audio_raises:
  assumes "packet \<in> set (demux av)" and "pts packet \<noteq> None"
    and "stream_type (stream packet) = Audio"
  shows "\<exists>e. MediaContainer_init av = Inl e"
proof (rule ccontr)
  assume "\<not> (\<exists>e. MediaContainer_init av = Inl e)"
  then obtain mc where "MediaContainer_init av = Inr mc"
    by (cases "MediaContainer_init av") auto
  then obtain st0 m h5 h4 st where
    l: "demux_loop av m h5 h4 st0 (demux av) = Inr st"
    and a: "audio_tracks (self st0) =
              map (\<lambda>(i, a_s). AudioTrack6 PySelf (PyStream a_s) (PyStream a_s)
                                         (PyStr (av_path av)) (PyInt (int i)) (PyInt (int i)))
                          (enumerate 0 (streams_audio av))"
    by (auto simp: MediaContainer_init_def Let_def split: sum.splits)
  from a have "no_packet_list st0" "length (audio_tracks (self st0)) = length (streams_audio av)"
    by (auto simp: no_packet_list_def AudioTrack6_def)
  from demux_loop_no_audio [OF l this] assms show False by blast
qed

text \<open>The example index with five GOPs is the one built from the example video source.\<close>

lemma video_index_built: "MediaContainer_init video_source = Inr video_index"
  by code_simp

text \<open>
  Claim C5 fails on the code. On a source with one audio stream and two audio packets the
  construction raises AttributeError at the first packet: the track's \<open>packets\<close> field
  holds the integer \<open>i\<close> that line 97 passes in sixth position, not a list. On a source
  whose audio stream yields no packet the index is built, and the field still holds that
  integer.
\<close>

theorem audio_packet_raises_attribute_error:
  "MediaContainer_init (audio_source [audio_packet 0, audio_packet 1024]) = Inl AttributeError
   \<and> map_sum id (\<lambda>mc. map packets (audio_tracks mc)) (MediaContainer_init (audio_source []))
       = Inr [PyInt 0]"
  by code_simp

section \<open>Cut driver (smart\_cut.py, lines 101 to 206)\<close>

text \<open>
  The stream generators are the driver's collaborators: the video cutter, the external
  generators, the audio and the subtitle cutters, each with a \<open>segment\<close> and a
  \<open>finish\<close> method that return packets or raise. The driver is modelled for any such
  generators: \<open>make_generators\<close> gives the generators built for an output file, in the
  order of the list \<open>generators\<close>.
\<close>

record 'g generator_ops =
  make_generators :: "string \<Rightarrow> 'g list"
  gen_segment :: "'g \<Rightarrow> CutSegment \<Rightarrow> py_error + 'g \<times> Packet list"
  gen_finish :: "'g \<Rightarrow> py_error + Packet list"

text \<open>
  What the driver changes: the files on disk, each with the packets muxed into it, and the
  counter \<open>previously_done_segments\<close>. The flag \<open>cancel_object.cancelled\<close> can be set
  while the driver runs, so the cancel object is the value each read of the flag gives,
  by the number \<open>polls\<close> of reads made before it; without a cancel object nothing is read.
\<close>

record driver_state =
  files :: "string \<rightharpoonup> Packet list"
  polls :: nat
  previously_done_segments :: nat

text \<open>The test \<open>cancel_object is not None and cancel_object.cancelled\<close>.\<close>

definition cancelled :: "(nat \<Rightarrow> bool) option \<Rightarrow> driver_state \<Rightarrow> bool \<times> driver_state" where
  "cancelled cancel_object st =
     (case cancel_object of
        None \<Rightarrow> (False, st)
      | Some flag \<Rightarrow> (flag (polls st), st\<lparr>polls := polls st + 1\<rparr>))"

text \<open>
  \<open>output_av_container.mux(packet)\<close> for the container of the file \<open>output_path\<close>, and
  the loop body of lines 189 to 193, which first drops a DTS below -900000.
\<close>

definition mux :: "string \<Rightarrow> Packet \<Rightarrow> driver_state \<Rightarrow> driver_state" where
  "mux output_path packet st =
     st\<lparr>files := (files st)(output_path \<mapsto>
                      (case files st output_path of None \<Rightarrow> [] | Some ps \<Rightarrow> ps) @ [packet])\<rparr>"

definition mux_segment_packet :: "string \<Rightarrow> driver_state \<Rightarrow> Packet \<Rightarrow> driver_state" where
  "mux_segment_packet output_path st packet =
     mux output_path
       (if dts packet \<noteq> None \<and> the (dts packet) < -900000 then packet\<lparr>dts := None\<rparr> else packet)
       st"

text \<open>The loop over the generators for one segment (lines 187 to 193).\<close>

fun segment_generators ::
  "'g generator_ops \<Rightarrow> string \<Rightarrow> CutSegment \<Rightarrow> driver_state \<Rightarrow> 'g list
     \<Rightarrow> py_error + driver_state \<times> 'g list" where
  "segment_generators ops output_path s st [] = Inr (st, [])"
| "segment_generators ops output_path s st (g # generators) =
     (case gen_segment ops g s of
        Inl e \<Rightarrow> Inl e
      | Inr (g', packet_list) \<Rightarrow>
          (case segment_generators ops output_path s
                  (foldl (mux_segment_packet output_path) st packet_list) generators of
             Inl e \<Rightarrow> Inl e
           | Inr (st', generators') \<Rightarrow> Inr (st', g' # generators')))"

text \<open>
  The loop over the segments \<open>cut_segments[previously_done_segments:]\<close> (lines 176 to
  193) for the output file of the interval that ends at \<open>interval_end\<close>.
\<close>

fun segment_loop ::
  "'g generator_ops \<Rightarrow> (nat \<Rightarrow> bool) option \<Rightarrow> string \<Rightarrow> rat \<Rightarrow> driver_state \<Rightarrow> 'g list
     \<Rightarrow> CutSegment list \<Rightarrow> py_error + driver_state \<times> 'g list" where
  "segment_loop ops cancel_object output_path interval_end st generators [] =
     Inr (st, generators)"
| "segment_loop ops cancel_object output_path interval_end st generators (s # rest) =
     (case cancelled cancel_object st of
        (True, st1) \<Rightarrow> Inr (st1, generators)
      | (False, st1) \<Rightarrow>
          (if start_time s \<ge> interval_end then Inr (st1, generators)
           else if \<not> start_time s < end_time s then Inl AssertionError
           else
             (case segment_generators ops output_path s
                     (st1\<lparr>previously_done_segments := previously_done_segments st1 + 1\<rparr>)
                     generators of
                Inl e \<Rightarrow> Inl e
              | Inr (st2, generators') \<Rightarrow>
                  segment_loop ops cancel_object output_path interval_end st2 generators' rest)))"

text \<open>The loop over the generators' \<open>finish\<close> (lines 194 to 198).\<close>

fun finish_generators ::
  "'g generator_ops \<Rightarrow> string \<Rightarrow> driver_state \<Rightarrow> 'g list \<Rightarrow> py_error + driver_state" where
  "finish_generators ops output_path st [] = Inr st"
| "finish_generators ops output_path st (g # generators) =
     (case gen_finish ops g of
        Inl e \<Rightarrow> Inl e
      | Inr packet_list \<Rightarrow>
          finish_generators ops output_path
            (foldl (\<lambda>st packet. mux output_path packet st) st packet_list) generators)"

text \<open>The test after the \<open>with\<close> block (lines 202 to 206).\<close>

definition remove_if_cancelled ::
  "(nat \<Rightarrow> bool) option \<Rightarrow> string \<Rightarrow> driver_state \<Rightarrow> driver_state" where
  "remove_if_cancelled cancel_object last_file_path st =
     (case cancelled cancel_object st of
        (True, st1) \<Rightarrow>
          (if files st1 last_file_path \<noteq> None
           then st1\<lparr>files := (files st1)(last_file_path := None)\<rparr> else st1)
      | (False, st1) \<Rightarrow> st1)"

text \<open>
  The work on one output file from a segment boundary on: the segments still to come, the
  \<open>finish\<close> loop, and the test after the \<open>with\<close> block. An exception leaves the
  function.
\<close>

definition rest_of_file ::
  "'g generator_ops \<Rightarrow> (nat \<Rightarrow> bool) option \<Rightarrow> string \<Rightarrow> rat \<Rightarrow> driver_state \<Rightarrow> 'g list
     \<Rightarrow> CutSegment list \<Rightarrow> py_error + driver_state" where
  "rest_of_file ops cancel_object output_path interval_end st generators segments =
     (case segment_loop ops cancel_object output_path interval_end st generators segments of
        Inl e \<Rightarrow> Inl e
      | Inr (st1, generators') \<Rightarrow>
          (case finish_generators ops output_path st1 generators' of
             Inl e \<Rightarrow> Inl e
           | Inr st2 \<Rightarrow> Inr (remove_if_cancelled cancel_object output_path st2)))"

text \<open>
  One output file (lines 145 to 206): \<open>av.open(path, 'w')\<close> creates the file, empty, and
  the generators are built for it.
\<close>

definition output_file ::
  "'g generator_ops \<Rightarrow> (nat \<Rightarrow> bool) option \<Rightarrow> CutSegment list \<Rightarrow> driver_state
     \<Rightarrow> string \<times> rat \<times> rat \<Rightarrow> py_error + driver_state" where
  "output_file ops cancel_object cut_segments st output_path_segment =
     (case output_path_segment of
        (output_path, interval) \<Rightarrow>
          rest_of_file ops cancel_object output_path (snd interval)
            (st\<lparr>files := (files st)(output_path \<mapsto> [])\<rparr>)
            (make_generators ops output_path)
            (drop (previously_done_segments st) cut_segments))"

text \<open>The loop over the output files (lines 141 to 206).\<close>

fun output_loop ::
  "'g generator_ops \<Rightarrow> (nat \<Rightarrow> bool) option \<Rightarrow> CutSegment list \<Rightarrow> driver_state
     \<Rightarrow> (string \<times> rat \<times> rat) list \<Rightarrow> py_error + driver_state" where
  "output_loop ops cancel_object cut_segments st [] = Inr st"
| "output_loop ops cancel_object cut_segments st (output_path_segment # output_files) =
     (case cancelled cancel_object st of
        (True, st1) \<Rightarrow> Inr st1
      | (False, st1) \<Rightarrow>
          (case output_file ops cancel_object cut_segments st1 output_path_segment of
             Inl e \<Rightarrow> Inl e
           | Inr st2 \<Rightarrow> output_loop ops cancel_object cut_segments st2 output_files))"

text \<open>
  The names of the output files (lines 115 to 130): \<open>str\<close> of a natural number,
  \<open>str.zfill\<close>, \<open>str.rfind\<close> of a character (\<open>None\<close> for -1), and the list
  \<open>output_files\<close>. Outside segment mode \<open>adjusted_segment_times[-1]\<close> raises IndexError
  on an empty list.
\<close>

function str_nat :: "nat \<Rightarrow> string" where
  "str_nat n =
     (if n < 10 then [char_of (48 + n)]
      else str_nat (n div 10) @ [char_of (48 + n mod 10)])"
  by pat_completeness auto
termination
  by (relation "measure id") auto

declare str_nat.simps [simp del]

definition zfill :: "nat \<Rightarrow> string \<Rightarrow> string" where
  "zfill width s = replicate (width - length s) CHR ''0'' @ s"

definition rfind :: "char \<Rightarrow> string \<Rightarrow> nat option" where
  "rfind c s =
     (if c \<in> set s then Some (length s - 1 - length (takeWhile (\<lambda>x. x \<noteq> c) (rev s)))
      else None)"

definition segment_output_file :: "string \<Rightarrow> nat \<Rightarrow> nat \<Rightarrow> string" where
  "segment_output_file out_path padding i =
     (let segment_index = zfill padding (str_nat (i + 1))
      in if CHR ''#'' \<in> set out_path then
           (let pound_index = the (rfind CHR ''#'' out_path)
            in take pound_index out_path @ segment_index @ drop (pound_index + 1) out_path)
         else
           (case rfind CHR ''.'' out_path of
              Some dot_index \<Rightarrow> take dot_index out_path @ segment_index @ drop dot_index out_path
            | None \<Rightarrow> out_path @ segment_index))"

definition output_files_of ::
  "bool \<Rightarrow> string \<Rightarrow> (rat \<times> rat) list \<Rightarrow> py_error + (string \<times> rat \<times> rat) list" where
  "output_files_of segment_mode out_path adjusted_segment_times =
     (if segment_mode then
        Inr (map (\<lambda>(i, s). (segment_output_file out_path
                                (length (str_nat (length adjusted_segment_times))) i, s))
                 (enumerate 0 adjusted_segment_times))
      else if adjusted_segment_times = [] then Inl IndexError
      else Inr [(out_path, last adjusted_segment_times)])"

text \<open>
  \<open>smart_cut\<close>, run on the disk \<open>disk\<close>. The function has no \<open>return\<close> statement:
  when it does not raise, it returns \<open>None\<close>.
\<close>

definition smart_cut ::
  "'g generator_ops \<Rightarrow> (string \<rightharpoonup> Packet list) \<Rightarrow> MediaContainer \<Rightarrow> (rat \<times> rat) list \<Rightarrow> string
     \<Rightarrow> VideoExportMode \<Rightarrow> bool \<Rightarrow> (nat \<Rightarrow> bool) option
     \<Rightarrow> py_error + py_error option \<times> driver_state" where
  "smart_cut ops disk media_container positive_segments out_path mode segment_mode cancel_object =
     (case planned_cut_segments media_container positive_segments mode of
        Inl e \<Rightarrow> Inl e
      | Inr cut_segments \<Rightarrow>
          (case output_files_of segment_mode out_path
                  (make_adjusted_segment_times positive_segments media_container) of
             Inl e \<Rightarrow> Inl e
           | Inr output_files \<Rightarrow>
               (case output_loop ops cancel_object cut_segments
                       \<lparr>files = disk, polls = 0, previously_done_segments = 0\<rparr> output_files of
                  Inl e \<Rightarrow> Inl e
                | Inr st \<Rightarrow> Inr (None, st))))"

text \<open>
  Example input: one generator that counts the segments it has seen, gives one packet for
  each, and one more packet when it finishes; and the driver's state at the second segment
  boundary of an export to \<open>out.mp4\<close>, before and after the \<open>finish\<close> loop.
\<close>

definition counting_generators :: "nat generator_ops" where
  "counting_generators =
     \<lparr>make_generators = (\<lambda>output_path. [0]),
      gen_segment = (\<lambda>g s. Inr (g + 1, [video_packet (Some (int g)) (Some (int g))])),
      gen_finish = (\<lambda>g. Inr [video_packet (Some (int g)) (Some (int g))])\<rparr>"

definition boundary_state :: driver_state where
  "boundary_state =
     \<lparr>files = [''out.mp4'' \<mapsto> [video_packet (Some 0) (Some 0)]],
      polls = 2, previously_done_segments = 1\<rparr>"

definition finished_state :: driver_state where
  "finished_state =
     \<lparr>files = [''out.mp4'' \<mapsto> [video_packet (Some 0) (Some 0), video_packet (Some 1) (Some 1)]],
      polls = 3, previously_done_segments = 1\<rparr>"

subsection \<open>Properties of the cut driver\<close>

lemma mux_frame:
  "polls (mux output_path packet st) = polls st
   \<and> previously_done_segments (mux output_path packet st) = previously_done_segments st
   \<and> files (mux output_path packet st) output_path \<noteq> None
   \<and> (\<forall>q. q \<noteq> output_path \<longrightarrow> files (mux output_path packet st) q = files st q)"
  by (simp add: mux_def)

lemma foldl_mux_frame:
  "polls (foldl (\<lambda>st packet. mux output_path packet st) st packet_list) = polls st
   \<and> previously_done_segments (foldl (\<lambda>st packet. mux output_path packet st) st packet_list)
       = previously_done_segments st
   \<and> (files st output_path \<noteq> None \<longrightarrow>
        files (foldl (\<lambda>st packet. mux output_path packet st) st packet_list) output_path \<noteq> None)
   \<and> (\<forall>q. q \<noteq> output_path \<longrightarrow>
        files (foldl (\<lambda>st packet. mux output_path packet st) st packet_list) q = files st q)"
proof (induction packet_list arbitrary: st)
  case Nil
  show ?case by simp
next
  case (Cons packet packet_list)
  from Cons [of "mux output_path packet st"] mux_frame [of output_path packet st]
  show ?case by simp
qed

lemma finish_generators_frame:
  assumes "finish_generators ops output_path st generators = Inr st2"
  shows "polls st2 = polls st
         \<and> previously_done_segments st2 = previously_done_segments st
         \<and> (files st output_path \<noteq> None \<longrightarrow> files st2 output_path \<noteq> None)
         \<and> (\<forall>q. q \<noteq> output_path \<longrightarrow> files st2 q = files st q)"
  using assms
proof (induction generators arbitrary: st)
  case Nil
  then show ?case by simp
next
  case (Cons g generators)
  from Cons.prems obtain packet_list where
    r: "finish_generators ops output_path
          (foldl (\<lambda>st packet. mux output_path packet st) st packet_list) generators = Inr st2"
    by (auto split: sum.splits)
  from Cons.IH [OF r] foldl_mux_frame [of output_path st packet_list]
  show ?case by simp
qed

lemma segment_loop_cancelled:
  "flag (polls st) \<Longrightarrow>
   segment_loop ops (Some flag) output_path interval_end st generators (s # rest)
     = Inr (st\<lparr>polls := polls st + 1\<rparr>, generators)"
  by (simp add: cancelled_def)

lemma output_loop_cancelled:
  "flag (polls st) \<Longrightarrow>
   map_sum id files (output_loop ops (Some flag) cut_segments st output_files) = Inr (files st)
   \<and> map_sum id previously_done_segments (output_loop ops (Some flag) cut_segments st output_files)
       = Inr (previously_done_segments st)"
  by (cases output_files) (simp_all add: cancelled_def)

text \<open>
  Every segment boundary of a file is reached as \<open>rest_of_file\<close>: after a segment that
  is processed, the work left is \<open>rest_of_file\<close> on the segments after it.
\<close>

lemma rest_of_file_step:
  assumes "cancelled cancel_object st = (False, st1)"
    and "start_time s < interval_end" and "start_time s < end_time s"
    and "segment_generators ops output_path s
           (st1\<lparr>previously_done_segments := previously_done_segments st1 + 1\<rparr>) generators
         = Inr (st2, generators')"
  shows "rest_of_file ops cancel_object output_path interval_end st generators (s # rest)
         = rest_of_file ops cancel_object output_path interval_end st2 generators' rest"
  using assms by (simp add: rest_of_file_def)

lemma smart_cut_returns_None:
  "smart_cut ops disk media_container positive_segments out_path mode segment_mode cancel_object
     = Inr (r, st) \<Longrightarrow> r = None"
  by (auto simp: smart_cut_def split: sum.splits)

lemma finish_at_boundary:
  "finish_generators counting_generators ''out.mp4'' (boundary_state\<lparr>polls := polls boundary_state + 1\<rparr>) [1]
     = Inr finished_state"
  by (simp add: counting_generators_def boundary_state_def finished_state_def mux_def)

text \<open>
  Claim C8, as amended. If the flag reads true at a segment boundary and stays set, and
  the generators' \<open>finish\<close> return: the segment loop stops there, with no generator
  called and nothing muxed; the packets \<open>finish\<close> returns are still muxed, then the
  in-progress output file is deleted; the segment counter and the other files are as they
  were at the boundary; the loop over the output files changes no file any more; and
  whenever \<open>smart_cut\<close> returns, cancelled or not, it returns \<open>None\<close>.
\<close>

theorem cancel_at_segment_boundary:
  assumes stay: "\<forall>n \<ge> polls st. flag n"
    and opened: "files st output_path \<noteq> None"
    and fin: "finish_generators ops output_path (st\<lparr>polls := polls st + 1\<rparr>) generators = Inr st2"
  shows "segment_loop ops (Some flag) output_path interval_end st generators (s # rest)
           = Inr (st\<lparr>polls := polls st + 1\<rparr>, generators)
       \<and> rest_of_file ops (Some flag) output_path interval_end st generators (s # rest)
           = Inr (st2\<lparr>polls := polls st + 2, files := (files st2)(output_path := None)\<rparr>)
       \<and> previously_done_segments st2 = previously_done_segments st
       \<and> (\<forall>q. q \<noteq> output_path \<longrightarrow> files st2 q = files st q)
       \<and> map_sum id files
            (output_loop ops (Some flag) cut_segments
               (st2\<lparr>polls := polls st + 2, files := (files st2)(output_path := None)\<rparr>)
               output_files)
           = Inr ((files st2)(output_path := None))
       \<and> (\<forall>disk media_container positive_segments out_path mode segment_mode r st'.
             smart_cut ops disk media_container positive_segments out_path mode segment_mode
               (Some flag) = Inr (r, st') \<longrightarrow> r = None)"
proof -
  from stay have f0: "flag (polls st)" and f1: "flag (polls st + 1)" and f2: "flag (polls st + 2)"
    by simp_all
  have loop: "segment_loop ops (Some flag) output_path interval_end st generators (s # rest)
           = Inr (st\<lparr>polls := polls st + 1\<rparr>, generators)"
    using f0 by (rule segment_loop_cancelled)
  from finish_generators_frame [OF fin] opened
  have fr: "polls st2 = polls st + 1" "previously_done_segments st2 = previously_done_segments st"
    "files st2 output_path \<noteq> None" "\<forall>q. q \<noteq> output_path \<longrightarrow> files st2 q = files st q"
    by simp_all
  have rem: "remove_if_cancelled (Some flag) output_path st2
           = st2\<lparr>polls := polls st + 2, files := (files st2)(output_path := None)\<rparr>"
    using fr f1 by (simp add: remove_if_cancelled_def cancelled_def)
  have whole: "rest_of_file ops (Some flag) output_path interval_end st generators (s # rest)
           = Inr (st2\<lparr>polls := polls st + 2, files := (files st2)(output_path := None)\<rparr>)"
    unfolding rest_of_file_def loop using fin rem by simp
  have out: "map_sum id files
            (output_loop ops (Some flag) cut_segments
               (st2\<lparr>polls := polls st + 2, files := (files st2)(output_path := None)\<rparr>)
               output_files)
           = Inr ((files st2)(output_path := None))"
    using output_loop_cancelled [of flag
        "st2\<lparr>polls := polls st + 2, files := (files st2)(output_path := None)\<rparr>"
        ops cut_segments output_files] f2
    by simp
  from loop whole fr out show ?thesis
    by (auto dest: smart_cut_returns_None)
qed

theorem cancel_at_segment_boundary_witness:
  "segment_loop counting_generators (Some (\<lambda>n. 2 \<le> n)) ''out.mp4'' 6 boundary_state [1]
       [CutSegment6 False 4 6 4000 (Some 4000) 2]
     = Inr (boundary_state\<lparr>polls := 3\<rparr>, [1])
   \<and> rest_of_file counting_generators (Some (\<lambda>n. 2 \<le> n)) ''out.mp4'' 6 boundary_state [1]
       [CutSegment6 False 4 6 4000 (Some 4000) 2]
     = Inr \<lparr>files = Map.empty, polls = 4, previously_done_segments = 1\<rparr>
   \<and> map_sum id (\<lambda>(r, st). (r, files st ''out.mp4'', polls st, previously_done_segments st))
       (smart_cut counting_generators Map.empty video_index [(2, 6)] ''out.mp4'' SMARTCUT False
          (Some (\<lambda>n. 2 \<le> n)))
     = Inr (None, None, 4, 1)"
proof -
  have stay: "\<forall>n \<ge> polls boundary_state. (\<lambda>n. 2 \<le> n) n"
    by (simp add: boundary_state_def)
  have opened: "files boundary_state ''out.mp4'' \<noteq> None"
    by (simp add: boundary_state_def)
  note t = cancel_at_segment_boundary [of boundary_state "\<lambda>n. 2 \<le> n" "''out.mp4''"
      counting_generators "[1]" finished_state 6 "CutSegment6 False 4 6 4000 (Some 4000) 2" "[]",
      OF stay opened finish_at_boundary]
  from t have a: "segment_loop counting_generators (Some (\<lambda>n. 2 \<le> n)) ''out.mp4'' 6
       boundary_state [1] [CutSegment6 False 4 6 4000 (Some 4000) 2]
     = Inr (boundary_state\<lparr>polls := 3\<rparr>, [1])"
    by (simp add: boundary_state_def)
  from t have b: "rest_of_file counting_generators (Some (\<lambda>n. 2 \<le> n)) ''out.mp4'' 6
       boundary_state [1] [CutSegment6 False 4 6 4000 (Some 4000) 2]
     = Inr \<lparr>files = Map.empty, polls = 4, previously_done_segments = 1\<rparr>"
    by (simp add: boundary_state_def finished_state_def)
  have c: "map_sum id (\<lambda>(r, st). (r, files st ''out.mp4'', polls st, previously_done_segments st))
       (smart_cut counting_generators Map.empty video_index [(2, 6)] ''out.mp4'' SMARTCUT False
          (Some (\<lambda>n. 2 \<le> n)))
     = Inr (None, None, 4, 1)"
    by code_simp
  from a b c show ?thesis by blast
qed

text \<open>
  The claim as stated fails on two counts. After the flag is read true at the second
  segment boundary, the \<open>finish\<close> loop muxes one more packet into the output file,
  which held one packet at the boundary. And the cancelled export returns \<open>None\<close>,
  the value the same export returns when it is never cancelled.
\<close>

theorem cancel_at_segment_boundary_counterexample:
  "segment_loop counting_generators (Some (\<lambda>n. 2 \<le> n)) ''out.mp4'' 6 boundary_state [1]
       [CutSegment6 False 4 6 4000 (Some 4000) 2]
     = Inr (boundary_state\<lparr>polls := 3\<rparr>, [1])
   \<and> map_sum id (\<lambda>st. files st ''out.mp4'')
       (finish_generators counting_generators ''out.mp4'' (boundary_state\<lparr>polls := 3\<rparr>) [1])
     = Inr (Some [video_packet (Some 0) (Some 0), video_packet (Some 1) (Some 1)])
   \<and> files boundary_state ''out.mp4'' = Some [video_packet (Some 0) (Some 0)]
   \<and> map_sum id (\<lambda>(r, st). r)
       (smart_cut counting_generators Map.empty video_index [(2, 6)] ''out.mp4'' SMARTCUT False
          (Some (\<lambda>n. 2 \<le> n)))
     = Inr None
   \<and> map_sum id (\<lambda>(r, st). r)
       (smart_cut counting_generators Map.empty video_index [(2, 6)] ''out.mp4'' SMARTCUT False
          None)
     = Inr None"
proof -
  have "segment_loop counting_generators (Some (\<lambda>n. 2 \<le> n)) ''out.mp4'' 6 boundary_state [1]
       [CutSegment6 False 4 6 4000 (Some 4000) 2]
     = Inr (boundary_state\<lparr>polls := 3\<rparr>, [1])"
    by (simp add: boundary_state_def cancelled_def)
  moreover have "map_sum id (\<lambda>st. files st ''out.mp4'')
       (finish_generators counting_generators ''out.mp4'' (boundary_state\<lparr>polls := 3\<rparr>) [1])
     = Inr (Some [video_packet (Some 0) (Some 0), video_packet (Some 1) (Some 1)])"
    by (simp add: counting_generators_def boundary_state_def mux_def)
  moreover have "files boundary_state ''out.mp4'' = Some [video_packet (Some 0) (Some 0)]"
    by (simp add: boundary_state_def)
  moreover have "map_sum id (\<lambda>(r, st). r)
       (smart_cut counting_generators Map.empty video_index [(2, 6)] ''out.mp4'' SMARTCUT False
          (Some (\<lambda>n. 2 \<le> n)))
     = Inr None"
    by code_simp
  moreover have "map_sum id (\<lambda>(r, st). r)
       (smart_cut counting_generators Map.empty video_index [(2, 6)] ''out.mp4'' SMARTCUT False
          None)
     = Inr None"
    by code_simp
  ultimately show ?thesis by blast
qed

text \<open>
  On the input of claim C4, the segment that ends before it starts makes \<open>smart_cut\<close>
  fail its assertion of line 186.
\<close>

lemma smart_cut_assertion_fails:
  "map_sum id (\<lambda>(r, st). r)
     (smart_cut counting_generators Map.empty (audio_only_index [0, 1]) [(5, 6)] ''out.mp4''
        SMARTCUT False None) = Inl AssertionError"
  by code_simp

end
